theory Spec2Isabelle
  imports Complex_Main "HOL-Library.Log_Nat"
begin

section \<open>Machine arithmetic of the Go source\<close>

text \<open>
  \<^verbatim>\<open>time.Duration\<close> and \<^verbatim>\<open>int64\<close> are 64-bit signed integers. They are modelled
  as \<open>int\<close> with the two's complement wrap-around written out at every addition,
  subtraction and multiplication of the source. Instants of the monotonic clock are
  \<open>int\<close> nanoseconds; \<^verbatim>\<open>time.Since\<close> is the difference of two instants (it saturates
  instead of wrapping, at differences of about 292 years).
\<close>

type_synonym Duration = int
type_synonym Time = int

definition wrap64 :: "int \<Rightarrow> int" where
  "wrap64 x = (x + 2 ^ 63) mod 2 ^ 64 - 2 ^ 63"

text \<open>Go's integer division truncates towards zero; the divisor is never zero where it is used.\<close>

definition tdiv :: "int \<Rightarrow> int \<Rightarrow> int" where
  "tdiv a b = sgn a * sgn b * (\<bar>a\<bar> div \<bar>b\<bar>)"

definition Hour :: Duration where
  "Hour = 3600000000000"

text \<open>\<^verbatim>\<open>Duration.Microseconds()\<close>: the duration in whole microseconds.\<close>

definition Microseconds :: "Duration \<Rightarrow> int" where
  "Microseconds d = tdiv d 1000"

section \<open>Stats Engine (pkg/utils/sliceutils.go)\<close>

text \<open>
  The source computes indices and variances in \<^verbatim>\<open>float64\<close>. A finite \<^verbatim>\<open>float64\<close> value is
  modelled by the real number it denotes, and every floating-point operation of the
  source by the exact operation followed by \<open>round64\<close>, the rounding of IEEE 754
  binary64: to the nearest value with a 53-bit significand (and no bit below \<open>2\<close> to the
  \<open>-1074\<close>), ties to the even significand. A result beyond the largest finite
  \<^verbatim>\<open>float64\<close> is infinite in the source and is the finite rounded real in the model;
  the only consumer of such a value is the conversion to \<^verbatim>\<open>int64\<close>, which treats both
  alike. NaN and infinite arguments have no counterpart in the model.
\<close>

definition two_pow :: "int \<Rightarrow> real" where
  "two_pow e = (if 0 \<le> e then 2 ^ nat e else 1 / 2 ^ nat (- e))"

text \<open>The binary exponent of \<open>x > 0\<close>: the \<open>e\<close> with \<open>2 ^ e \<le> x < 2 ^ (e + 1)\<close>.\<close>

definition exponent2 :: "real \<Rightarrow> int" where
  "exponent2 x = (if 1 \<le> x then bitlen \<lfloor>x\<rfloor> - 1 else - bitlen (\<lceil>1 / x\<rceil> - 1))"

text \<open>The nearest integer, ties to even.\<close>

definition round_even :: "real \<Rightarrow> int" where
  "round_even y =
     (let f = \<lfloor>y\<rfloor>; r = y - of_int f
      in if r < 1 / 2 then f else if 1 / 2 < r then f + 1 else if even f then f else f + 1)"

definition round64 :: "real \<Rightarrow> real" where
  "round64 x =
     (if x = 0 then 0
      else (let ulp = two_pow (max (exponent2 \<bar>x\<bar> - 52) (- 1074))
            in sgn x * (ulp * of_int (round_even (\<bar>x\<bar> / ulp)))))"

text \<open>
  The conversion of a float to \<^verbatim>\<open>int\<close>, \<^verbatim>\<open>int64\<close> or \<^verbatim>\<open>time.Duration\<close> truncates towards
  zero. When the truncated value is outside \<^verbatim>\<open>int64\<close> (and for NaN) the Go specification
  leaves the result to the implementation; on amd64, which the model follows, it is the
  least \<^verbatim>\<open>int64\<close>.
\<close>

definition float_int64 :: "real \<Rightarrow> int" where
  "float_int64 x =
     (let t = (if x < 0 then \<lceil>x\<rceil> else \<lfloor>x\<rfloor>)
      in if - (2 ^ 63) \<le> t \<and> t < 2 ^ 63 then t else - (2 ^ 63))"

text \<open>
  \<^verbatim>\<open>time.Duration(math.Sqrt(v))\<close>. \<^verbatim>\<open>math.Sqrt\<close> is correctly rounded; for a negative
  argument (a sum of squares that has wrapped) it is NaN.
\<close>

definition sqrt_ns :: "real \<Rightarrow> Duration" where
  "sqrt_ns v = (if v < 0 then - (2 ^ 63) else float_int64 (round64 (sqrt v)))"

text \<open>
  The index computations of \<^verbatim>\<open>CalculateStats\<close> and \<^verbatim>\<open>Analyzer.Run\<close> multiply the length
  by one of the constants 0.5, 0.95 and 0.99 and convert the product to \<^verbatim>\<open>int\<close>. For these
  the model (\<open>clamp_idx\<close> below) takes the integer part of the exact product.
\<close>

definition float_int :: "real \<Rightarrow> int" where
  "float_int x = (if x < 0 then \<lceil>x\<rceil> else \<lfloor>x\<rfloor>)"

text \<open>
  The integer square root by bisection between \<open>lo\<close> and \<open>hi\<close>. It serves to evaluate
  \<open>sqrt_ns\<close> (lemma \<open>sqrt_ns_code\<close> below).
\<close>

function isqrt_between :: "int \<Rightarrow> int \<Rightarrow> int \<Rightarrow> int" where
  "isqrt_between lo hi n =
     (if hi \<le> lo + 1 then lo
      else (let mid = (lo + hi) div 2
            in if mid * mid \<le> n then isqrt_between mid hi n else isqrt_between lo mid n))"
  by pat_completeness auto
termination
  by (relation "measure (\<lambda>(lo, hi, n). nat (hi - lo))") auto

declare isqrt_between.simps [simp del]

text \<open>
  \<^verbatim>\<open>for _, d := range durations { diff := d - mean; sum += diff.Nanoseconds() * diff.Nanoseconds() }\<close>
\<close>

fun sum_squares :: "int \<Rightarrow> Duration \<Rightarrow> Duration list \<Rightarrow> int" where
  "sum_squares acc mean [] = acc"
| "sum_squares acc mean (d # ds) =
     (let diff = wrap64 (d - mean)
      in sum_squares (wrap64 (acc + wrap64 (diff * diff))) mean ds)"

text \<open>\<^verbatim>\<open>for _, d := range durations { total += d }\<close>\<close>

fun sum_durations :: "Duration \<Rightarrow> Duration list \<Rightarrow> Duration" where
  "sum_durations tot [] = tot"
| "sum_durations tot (d # ds) = sum_durations (wrap64 (tot + d)) ds"

text \<open>
  \<^verbatim>\<open>CalculatePercentile\<close>. The slice is sorted ascending, the index is
  \<^verbatim>\<open>int(math.Floor(float64(len) * percentile / 100.0))\<close>, clamped from above only. A negative
  index makes the slice access panic: the result is \<open>None\<close>. The argument \<open>percentile\<close>
  is the real value of the \<^verbatim>\<open>float64\<close> passed.
\<close>

definition CalculatePercentile :: "Duration list \<Rightarrow> real \<Rightarrow> Duration option" where
  "CalculatePercentile durations percentile =
     (if length durations = 0 then Some 0
      else
        let sorted = sort durations;
            product = round64 (round64 (real (length durations)) * percentile);
            quotient = round64 (product / 100);
            idx = float_int64 (of_int \<lfloor>quotient\<rfloor>);
            idx = (if idx \<ge> int (length durations) then int (length durations) - 1 else idx)
        in if idx < 0 then None else Some (sorted ! nat idx))"

text \<open>\<^verbatim>\<open>CalculateStandardDeviation\<close>: the divisor is \<^verbatim>\<open>len(durations)-1\<close>.\<close>

definition CalculateStandardDeviation :: "Duration list \<Rightarrow> Duration \<Rightarrow> Duration" where
  "CalculateStandardDeviation durations mean =
     (if length durations \<le> 1 then 0
      else
        let sum = sum_squares 0 mean durations;
            variance = round64 (round64 (real_of_int sum) / round64 (real (length durations - 1)))
        in sqrt_ns variance)"

record Stats =
  Min_Stats :: Duration
  Max_Stats :: Duration
  Mean :: Duration
  Median :: Duration
  StdDev :: Duration
  P95 :: Duration
  P99 :: Duration
  Samples :: int

definition Stats_zero :: Stats where
  "Stats_zero = \<lparr>Min_Stats = 0, Max_Stats = 0, Mean = 0, Median = 0, StdDev = 0,
                  P95 = 0, P99 = 0, Samples = 0\<rparr>"

text \<open>
  The index of a percentile in \<^verbatim>\<open>CalculateStats\<close> (and in \<^verbatim>\<open>Analyzer.Run\<close>):
  \<^verbatim>\<open>idx := int(float64(len(durations)) * f); if idx >= len(durations) { idx = len(durations) - 1 }\<close>.
\<close>

definition clamp_idx :: "nat \<Rightarrow> real \<Rightarrow> nat" where
  "clamp_idx n f =
     (let idx = float_int (real n * f)
      in if idx \<ge> int n then n - 1 else nat idx)"

text \<open>\<^verbatim>\<open>CalculateStats\<close>: the divisor of the variance is \<^verbatim>\<open>len(durations)\<close>.\<close>

definition CalculateStats :: "Duration list \<Rightarrow> Stats" where
  "CalculateStats durations =
     (if length durations = 0 then Stats_zero
      else
        let sorted = sort durations;
            n = length sorted;
            total = sum_durations 0 sorted;
            mean = tdiv total (int n);
            sumSquares = sum_squares 0 mean sorted;
            variance = round64 (round64 (real_of_int sumSquares) / round64 (real n));
            stdDev = sqrt_ns variance;
            p50Idx = clamp_idx n 0.5;
            p95Idx = clamp_idx n 0.95;
            p99Idx = clamp_idx n 0.99
        in \<lparr>Min_Stats = sorted ! 0, Max_Stats = sorted ! (n - 1), Mean = mean,
            Median = sorted ! p50Idx, StdDev = stdDev, P95 = sorted ! p95Idx,
            P99 = sorted ! p99Idx, Samples = int n\<rparr>)"

section \<open>Data model (internal/model/model.go)\<close>

text \<open>
  A Go \<^verbatim>\<open>error\<close> value is modelled as \<open>string option\<close>: \<open>None\<close> is \<^verbatim>\<open>nil\<close>, \<open>Some m\<close> an error
  whose \<^verbatim>\<open>Error()\<close> text is \<open>m\<close>. Counters of type \<^verbatim>\<open>int\<close> that are incremented once per
  element appended to a slice are plain \<open>int\<close>: a Go slice holds fewer than \<open>2 ^ 63\<close>
  elements, so they cannot wrap.
\<close>

record Query =
  Name_q :: string
  Description_q :: string
  SQL_q :: string
  Weight_q :: int

record QueryExecution =
  SQL_e :: string
  StartTime :: Time
  Duration :: Duration
  RowCount :: int
  Error :: "string option"
  ErrorMessage :: string

record QueryResult =
  Name :: string
  Description :: string
  SQL :: string
  Executions :: "QueryExecution list"
  SuccessfulExecutions :: int
  Errors :: int
  ErrorDetails :: "string list"
  TotalDuration :: Duration
  AvgDuration :: Duration
  MinDuration :: Duration
  MaxDuration :: Duration
  MedianDuration :: Duration
  StdDevDuration :: Duration
  Percentile95 :: Duration
  Percentile99 :: Duration
  RowsAffected :: int
  Weight :: int
  QueryComplexity :: string
  FirstExecutedAt :: Time
  LastExecutedAt :: Time
  ExplainPlan :: string

record ResultSummary =
  TotalQueries :: int
  SuccessfulQueries :: int
  FailedQueries :: int
  TotalExecutions :: int
  SuccessfulExecutions_sum :: int
  FailedExecutions :: int
  AvgDurationMs :: real
  MedianDurationMs :: real
  StdDevDurationMs :: real
  MaxDurationMs :: real
  P95DurationMs :: real
  P99DurationMs :: real
  TotalRowsReturned :: int
  QueriesByComplexity :: "string \<rightharpoonup> int"
  ErrorsByType :: "string \<rightharpoonup> int"

section \<open>Execution Unit\<close>

text \<open>
  One execution talks to the database and reads the clock. What the database does in
  that execution is the environment of the model: how long each call takes and which
  errors it returns. The clock is passed through the function and returned, so the
  instant at which the function returns is part of its result.
\<close>

record db_call =
  ctx_ns :: int  \<comment> \<open>time spent in \<^verbatim>\<open>context.WithTimeout\<close>\<close>
  issue_ns :: int  \<comment> \<open>time spent in \<^verbatim>\<open>db.QueryContext\<close>\<close>
  issue_err :: "string option"  \<comment> \<open>the error \<^verbatim>\<open>db.QueryContext\<close> returns\<close>
  next_ns :: "int list"  \<comment> \<open>time spent in each \<^verbatim>\<open>rows.Next()\<close> that returns true\<close>
  end_ns :: int  \<comment> \<open>time spent in the last \<^verbatim>\<open>rows.Next()\<close>, which returns false\<close>
  rows_err :: "string option"  \<comment> \<open>what \<^verbatim>\<open>rows.Err()\<close> returns after the loop\<close>

text \<open>\<^verbatim>\<open>for rows.Next() { rowCount++ }\<close>, with the clock.\<close>

fun drain_rows :: "Time \<Rightarrow> int \<Rightarrow> int list \<Rightarrow> Time \<times> int" where
  "drain_rows now rowCount [] = (now, rowCount)"
| "drain_rows now rowCount (t # ts) = drain_rows (now + t) (wrap64 (rowCount + 1)) ts"

text \<open>The private result type of analyzer.go.\<close>

record queryResult =
  duration :: Duration
  rowCount :: int
  err :: "string option"
  startTime :: Time

text \<open>
  \<^verbatim>\<open>Analyzer.executeQuery\<close> (analyzer.go). \<^verbatim>\<open>time.Since(result.startTime)\<close> is evaluated
  when \<^verbatim>\<open>QueryContext\<close> has returned, before the rows are iterated.
\<close>

definition executeQuery :: "Time \<Rightarrow> string \<Rightarrow> db_call \<Rightarrow> queryResult \<times> Time" where
  "executeQuery now sql c =
     (let result = \<lparr>duration = 0, rowCount = 0, err = None, startTime = now\<rparr>;
          now = now + ctx_ns c;
          now = now + issue_ns c;
          result = result\<lparr>duration := now - startTime result\<rparr>
      in case issue_err c of
           Some e \<Rightarrow> (result\<lparr>err := Some e\<rparr>, now)
         | None \<Rightarrow>
             (let (now, n) = drain_rows now (rowCount result) (next_ns c);
                  now = now + end_ns c;
                  result = result\<lparr>rowCount := n\<rparr>
              in case rows_err c of
                   Some e \<Rightarrow> (result\<lparr>err := Some e\<rparr>, now)
                 | None \<Rightarrow> (result, now)))"

text \<open>
  \<^verbatim>\<open>QueryExecutor.ExecuteQuery\<close> (query.go). The clock is read a second time
  (\<^verbatim>\<open>start := time.Now()\<close>) after the context has been built.
\<close>

definition ExecuteQuery :: "Time \<Rightarrow> string \<Rightarrow> db_call \<Rightarrow> QueryExecution \<times> Time" where
  "ExecuteQuery now query c =
     (let execution = \<lparr>SQL_e = query, StartTime = now, Duration = 0, RowCount = 0,
                        Error = None, ErrorMessage = []\<rparr>;
          now = now + ctx_ns c;
          start = now;
          now = now + issue_ns c;
          execution = execution\<lparr>Duration := now - start\<rparr>
      in case issue_err c of
           Some e \<Rightarrow> (execution\<lparr>Error := Some e, ErrorMessage := e\<rparr>, now)
         | None \<Rightarrow>
             (let (now, rowCount) = drain_rows now 0 (next_ns c);
                  now = now + end_ns c;
                  execution = execution\<lparr>RowCount := rowCount\<rparr>
              in case rows_err c of
                   Some e \<Rightarrow> (execution\<lparr>Error := Some e, ErrorMessage := e\<rparr>, now)
                 | None \<Rightarrow> (execution, now)))"

section \<open>Concurrent Batch Runner: merging and finalization\<close>

text \<open>
  The merges of one \<^verbatim>\<open>QueryResult\<close> are serialized (a mutex in \<^verbatim>\<open>Analyzer.Run\<close>, one
  goroutine per query in \<^verbatim>\<open>ExecuteBatch\<close>), so the result of a query is a left fold of
  the merge step over its executions in completion order. The function
  \<^verbatim>\<open>AnalyzeQueryComplexity\<close> only supplies a tag and is a parameter \<open>cx\<close>.
\<close>

definition new_result :: "(string \<Rightarrow> string) \<Rightarrow> Query \<Rightarrow> QueryResult" where
  "new_result cx query =
     \<lparr>Name = Name_q query, Description = Description_q query, SQL = SQL_q query,
      Executions = [], SuccessfulExecutions = 0, Errors = 0, ErrorDetails = [],
      TotalDuration = 0, AvgDuration = 0, MinDuration = Hour, MaxDuration = 0,
      MedianDuration = 0, StdDevDuration = 0, Percentile95 = 0, Percentile99 = 0,
      RowsAffected = 0, Weight = Weight_q query, QueryComplexity = cx (SQL_q query),
      FirstExecutedAt = 0, LastExecutedAt = 0, ExplainPlan = []\<rparr>"

text \<open>
  The body of the goroutine of \<^verbatim>\<open>Analyzer.Run\<close> after \<^verbatim>\<open>executeQuery\<close> has returned
  (analyzer.go, lines 114 to 153). The state is the result and the slice \<^verbatim>\<open>durations\<close>.
\<close>

definition merge_Run ::
  "Query \<Rightarrow> QueryResult \<times> Duration list \<Rightarrow> queryResult \<Rightarrow> QueryResult \<times> Duration list" where
  "merge_Run query st qr =
     (let result = fst st; durations = snd st;
          result = (if length (Executions result) = 0
                    then result\<lparr>FirstExecutedAt := startTime qr\<rparr> else result);
          result = result\<lparr>LastExecutedAt := startTime qr\<rparr>;
          execution = \<lparr>SQL_e = SQL_q query, StartTime = startTime qr, Duration = duration qr,
                        RowCount = rowCount qr, Error = None, ErrorMessage = []\<rparr>
      in case err qr of
           Some e \<Rightarrow>
             (let execution = execution\<lparr>ErrorMessage := e\<rparr>;
                  result = result\<lparr>Errors := Errors result + 1\<rparr>;
                  result = (if length (ErrorDetails result) < 10
                            then result\<lparr>ErrorDetails := ErrorDetails result @ [e]\<rparr>
                            else result);
                  result = result\<lparr>Executions := Executions result @ [execution]\<rparr>
              in (result, durations))
         | None \<Rightarrow>
             (let result = result\<lparr>SuccessfulExecutions := SuccessfulExecutions result + 1\<rparr>;
                  result = result\<lparr>TotalDuration := wrap64 (TotalDuration result + duration qr)\<rparr>;
                  result = result\<lparr>RowsAffected := wrap64 (RowsAffected result + rowCount qr)\<rparr>;
                  durations = durations @ [duration qr];
                  result = result\<lparr>Executions := Executions result @ [execution]\<rparr>;
                  result = (if duration qr < MinDuration result
                            then result\<lparr>MinDuration := duration qr\<rparr> else result);
                  result = (if duration qr > MaxDuration result
                            then result\<lparr>MaxDuration := duration qr\<rparr> else result)
              in (result, durations)))"

text \<open>After \<^verbatim>\<open>wg.Wait()\<close> in \<^verbatim>\<open>Analyzer.Run\<close> (analyzer.go, lines 164 to 177).\<close>

definition finalize_Run :: "QueryResult \<times> Duration list \<Rightarrow> QueryResult" where
  "finalize_Run st =
     (let result = fst st; durations = snd st;
          result = (if SuccessfulExecutions result > 0
                    then result\<lparr>AvgDuration :=
                           tdiv (TotalDuration result) (SuccessfulExecutions result)\<rparr>
                    else result)
      in if length durations > 0
         then (let sorted = sort durations;
                   idx95 = clamp_idx (length sorted) 0.95
               in result\<lparr>Percentile95 := sorted ! idx95\<rparr>)
         else result)"

text \<open>
  One query of \<^verbatim>\<open>Analyzer.Run\<close>: \<open>calls\<close> lists its executions in the order in which
  they reach the merge, each with the clock reading at its start.
\<close>

definition execs_Run :: "Query \<Rightarrow> (Time \<times> db_call) list \<Rightarrow> queryResult list" where
  "execs_Run query calls = map (\<lambda>tc. fst (executeQuery (fst tc) (SQL_q query) (snd tc))) calls"

definition Run_query :: "(string \<Rightarrow> string) \<Rightarrow> Query \<Rightarrow> (Time \<times> db_call) list \<Rightarrow> QueryResult" where
  "Run_query cx query calls =
     finalize_Run (foldl (merge_Run query) (new_result cx query, []) (execs_Run query calls))"

definition Run :: "(string \<Rightarrow> string) \<Rightarrow> Query list \<Rightarrow> (Time \<times> db_call) list list \<Rightarrow> QueryResult list" where
  "Run cx queries callss = map (\<lambda>qc. Run_query cx (fst qc) (snd qc)) (zip queries callss)"

text \<open>
  The loop body of \<^verbatim>\<open>ExecuteBatch\<close> after \<^verbatim>\<open>ExecuteQuery\<close> has returned (query.go, lines
  107 to 135).
\<close>

definition merge_Batch :: "QueryResult \<Rightarrow> QueryExecution \<Rightarrow> QueryResult" where
  "merge_Batch result execution =
     (let result = (if length (Executions result) = 0
                    then result\<lparr>FirstExecutedAt := StartTime execution\<rparr> else result);
          result = result\<lparr>LastExecutedAt := StartTime execution\<rparr>;
          result = result\<lparr>Executions := Executions result @ [execution]\<rparr>
      in if Error execution \<noteq> None
         then (let result = result\<lparr>Errors := Errors result + 1\<rparr>
               in if length (ErrorDetails result) < 10
                  then result\<lparr>ErrorDetails := ErrorDetails result @ [ErrorMessage execution]\<rparr>
                  else result)
         else (let result = result\<lparr>SuccessfulExecutions := SuccessfulExecutions result + 1\<rparr>;
                   result = result\<lparr>TotalDuration :=
                              wrap64 (TotalDuration result + Duration execution)\<rparr>;
                   result = result\<lparr>RowsAffected :=
                              wrap64 (RowsAffected result + RowCount execution)\<rparr>;
                   result = (if Duration execution < MinDuration result
                             then result\<lparr>MinDuration := Duration execution\<rparr> else result)
               in if Duration execution > MaxDuration result
                  then result\<lparr>MaxDuration := Duration execution\<rparr> else result))"

text \<open>After the iterations of one query in \<^verbatim>\<open>ExecuteBatch\<close> (query.go, lines 148 to 165).\<close>

definition finalize_Batch :: "QueryResult \<Rightarrow> QueryResult" where
  "finalize_Batch result =
     (if SuccessfulExecutions result > 0
      then (let result = result\<lparr>AvgDuration :=
                           tdiv (TotalDuration result) (SuccessfulExecutions result)\<rparr>;
                durations = map Duration (filter (\<lambda>exec. Error exec = None) (Executions result))
            in if length durations > 0
               then (let stats = CalculateStats durations
                     in result\<lparr>Percentile95 := P95 stats, Percentile99 := P99 stats,
                               StdDevDuration := StdDev stats, MedianDuration := Median stats\<rparr>)
               else result)
      else result)"

definition execs_Batch :: "Query \<Rightarrow> (Time \<times> db_call) list \<Rightarrow> QueryExecution list" where
  "execs_Batch q calls = map (\<lambda>tc. fst (ExecuteQuery (fst tc) (SQL_q q) (snd tc))) calls"

definition ExecuteBatch_query :: "(string \<Rightarrow> string) \<Rightarrow> Query \<Rightarrow> (Time \<times> db_call) list \<Rightarrow> QueryResult" where
  "ExecuteBatch_query cx q calls =
     finalize_Batch (foldl merge_Batch (new_result cx q) (execs_Batch q calls))"

definition ExecuteBatch :: "(string \<Rightarrow> string) \<Rightarrow> Query list \<Rightarrow> (Time \<times> db_call) list list \<Rightarrow> QueryResult list" where
  "ExecuteBatch cx queries callss =
     map (\<lambda>qc. ExecuteBatch_query cx (fst qc) (snd qc)) (zip queries callss)"

section \<open>Run Summarizer (analyzer.go, calculateSummary)\<close>

text \<open>\<^verbatim>\<open>m[k]++\<close> on a Go map: a missing key reads as 0.\<close>

definition incr :: "(string \<rightharpoonup> int) \<Rightarrow> string \<Rightarrow> (string \<rightharpoonup> int)" where
  "incr m k = m(k \<mapsto> (case m k of None \<Rightarrow> 1 | Some n \<Rightarrow> n + 1))"

text \<open>The state of the loop: the summary, \<^verbatim>\<open>totalDuration\<close> and \<^verbatim>\<open>maxDuration\<close>.\<close>

definition summary_step ::
  "ResultSummary \<times> Duration \<times> Duration \<Rightarrow> QueryResult \<Rightarrow> ResultSummary \<times> Duration \<times> Duration" where
  "summary_step st result =
     (let summary = fst st; totalDuration = fst (snd st); maxDuration = snd (snd st);
          summary = summary\<lparr>TotalExecutions := TotalExecutions summary + int (length (Executions result))\<rparr>;
          summary = summary\<lparr>SuccessfulExecutions_sum :=
                               SuccessfulExecutions_sum summary + SuccessfulExecutions result\<rparr>;
          summary = summary\<lparr>FailedExecutions := FailedExecutions summary + Errors result\<rparr>;
          summary = summary\<lparr>TotalRowsReturned := wrap64 (TotalRowsReturned summary + RowsAffected result)\<rparr>;
          summary = (if Errors result = 0
                     then summary\<lparr>SuccessfulQueries := SuccessfulQueries summary + 1\<rparr>
                     else summary\<lparr>FailedQueries := FailedQueries summary + 1\<rparr>);
          totalDuration = wrap64 (totalDuration + AvgDuration result);
          maxDuration = (if MaxDuration result > maxDuration then MaxDuration result else maxDuration);
          summary = summary\<lparr>QueriesByComplexity := incr (QueriesByComplexity summary) (QueryComplexity result)\<rparr>
      in (summary, totalDuration, maxDuration))"

definition calculateSummary :: "QueryResult list \<Rightarrow> ResultSummary" where
  "calculateSummary results =
     (let summary = \<lparr>TotalQueries = int (length results), SuccessfulQueries = 0, FailedQueries = 0,
                      TotalExecutions = 0, SuccessfulExecutions_sum = 0, FailedExecutions = 0,
                      AvgDurationMs = 0, MedianDurationMs = 0, StdDevDurationMs = 0,
                      MaxDurationMs = 0, P95DurationMs = 0, P99DurationMs = 0,
                      TotalRowsReturned = 0, QueriesByComplexity = Map.empty,
                      ErrorsByType = Map.empty\<rparr>;
          st = foldl summary_step (summary, 0, 0) results;
          summary = fst st; totalDuration = fst (snd st); maxDuration = snd (snd st)
      in if TotalQueries summary > 0
         then (let avgDuration = tdiv totalDuration (TotalQueries summary)
               in summary\<lparr>AvgDurationMs := real_of_int (Microseconds avgDuration) / 1000,
                          MaxDurationMs := real_of_int (Microseconds maxDuration) / 1000\<rparr>)
         else summary)"

section \<open>Comparator (report/json.go, SaveComparisonJSON, lines 157 to 182)\<close>



section \<open>The admission gate\<close>

text \<open>
  Both runners use a buffered channel of capacity \<open>C\<close> as a counting semaphore: a send
  \<^verbatim>\<open>semaphore <- struct{}{}\<close> completes only while fewer than \<open>C\<close> tokens are buffered,
  a receive \<^verbatim>\<open><-semaphore\<close> only while one is. The interleavings of the goroutines are
  the runs of a step relation; \<open>C\<close> is the concurrency limit, \<open>I\<close> the iteration count.
\<close>

subsection \<open>Analyzer.Run\<close>

text \<open>
  The main goroutine sends the token and then starts a goroutine (analyzer.go, lines 104
  to 110); the goroutine calls \<^verbatim>\<open>executeQuery\<close>, merges the outcome under the mutex, and
  its deferred \<^verbatim>\<open><-semaphore\<close> runs when the body returns, on the error path and on the
  success path alike. \<^verbatim>\<open>wg.Wait()\<close> separates the queries.
\<close>

datatype goroutine =
    Spawned  \<comment> \<open>started by \<^verbatim>\<open>go\<close>, body not yet begun\<close>
  | Executing  \<comment> \<open>inside \<^verbatim>\<open>a.executeQuery\<close>\<close>
  | Merging bool  \<comment> \<open>\<^verbatim>\<open>executeQuery\<close> has returned (\<open>True\<close>: without error)\<close>
  | Exited  \<comment> \<open>the deferred calls have run\<close>

record run_state =
  sem :: nat  \<comment> \<open>tokens buffered in \<^verbatim>\<open>semaphore\<close>\<close>
  queries_left :: nat  \<comment> \<open>queries the outer loop has not started\<close>
  iter :: nat  \<comment> \<open>the loop variable \<^verbatim>\<open>i\<close> of the current query\<close>
  workers :: "goroutine list"  \<comment> \<open>the goroutines of the current query\<close>

definition run_init :: "nat \<Rightarrow> nat \<Rightarrow> run_state" where
  "run_init I Q = \<lparr>sem = 0, queries_left = Q, iter = I, workers = []\<rparr>"

inductive Run_step :: "nat \<Rightarrow> nat \<Rightarrow> run_state \<Rightarrow> run_state \<Rightarrow> bool" for C I where
  next_query:
    "queries_left s > 0 \<Longrightarrow> iter s \<ge> I \<Longrightarrow> \<forall>w \<in> set (workers s). w = Exited \<Longrightarrow>
     Run_step C I s (s\<lparr>queries_left := queries_left s - 1, iter := 0, workers := []\<rparr>)"
| dispatch:
    "iter s < I \<Longrightarrow> sem s < C \<Longrightarrow>
     Run_step C I s (s\<lparr>sem := sem s + 1, iter := iter s + 1, workers := workers s @ [Spawned]\<rparr>)"
| begin_exec:
    "k < length (workers s) \<Longrightarrow> workers s ! k = Spawned \<Longrightarrow>
     Run_step C I s (s\<lparr>workers := (workers s)[k := Executing]\<rparr>)"
| end_exec:
    "k < length (workers s) \<Longrightarrow> workers s ! k = Executing \<Longrightarrow>
     Run_step C I s (s\<lparr>workers := (workers s)[k := Merging ok]\<rparr>)"
| release:
    "k < length (workers s) \<Longrightarrow> workers s ! k = Merging ok \<Longrightarrow> sem s > 0 \<Longrightarrow>
     Run_step C I s (s\<lparr>sem := sem s - 1, workers := (workers s)[k := Exited]\<rparr>)"

inductive Run_reachable :: "nat \<Rightarrow> nat \<Rightarrow> nat \<Rightarrow> run_state \<Rightarrow> bool" for C I Q where
  run_start: "Run_reachable C I Q (run_init I Q)"
| run_next: "Run_reachable C I Q s \<Longrightarrow> Run_step C I s s' \<Longrightarrow> Run_reachable C I Q s'"

text \<open>The executions in flight: the goroutines inside \<^verbatim>\<open>executeQuery\<close>.\<close>

definition in_flight :: "run_state \<Rightarrow> nat" where
  "in_flight s = length (filter (\<lambda>w. w = Executing) (workers s))"

text \<open>The goroutines that hold a slot: started and not yet past the deferred receive.\<close>

definition held :: "run_state \<Rightarrow> nat" where
  "held s = length (filter (\<lambda>w. w \<noteq> Exited) (workers s))"

subsection \<open>QueryExecutor.ExecuteBatch\<close>

text \<open>
  One goroutine per query runs the iterations of its query in sequence (query.go, lines
  100 to 105): send the token, call \<^verbatim>\<open>ExecuteQuery\<close>, receive the token, merge.
\<close>

datatype batch_pc =
    Waiting  \<comment> \<open>before \<^verbatim>\<open>qe.semaphore <- struct{}{}\<close>\<close>
  | Running  \<comment> \<open>inside \<^verbatim>\<open>qe.ExecuteQuery\<close>\<close>
  | Returned bool  \<comment> \<open>\<^verbatim>\<open>ExecuteQuery\<close> has returned (\<open>True\<close>: without error)\<close>

record batch_state =
  sem_b :: nat  \<comment> \<open>tokens buffered in \<^verbatim>\<open>qe.semaphore\<close>\<close>
  workers_b :: "(batch_pc \<times> nat) list"  \<comment> \<open>per query: where its goroutine is, and \<^verbatim>\<open>iter\<close>\<close>

definition batch_init :: "nat \<Rightarrow> batch_state" where
  "batch_init Q = \<lparr>sem_b = 0, workers_b = replicate Q (Waiting, 0)\<rparr>"

inductive Batch_step :: "nat \<Rightarrow> nat \<Rightarrow> batch_state \<Rightarrow> batch_state \<Rightarrow> bool" for C I where
  acquire:
    "k < length (workers_b s) \<Longrightarrow> workers_b s ! k = (Waiting, i) \<Longrightarrow> i < I \<Longrightarrow> sem_b s < C \<Longrightarrow>
     Batch_step C I s (s\<lparr>sem_b := sem_b s + 1, workers_b := (workers_b s)[k := (Running, i)]\<rparr>)"
| returns:
    "k < length (workers_b s) \<Longrightarrow> workers_b s ! k = (Running, i) \<Longrightarrow>
     Batch_step C I s (s\<lparr>workers_b := (workers_b s)[k := (Returned ok, i)]\<rparr>)"
| release_b:
    "k < length (workers_b s) \<Longrightarrow> workers_b s ! k = (Returned ok, i) \<Longrightarrow> sem_b s > 0 \<Longrightarrow>
     Batch_step C I s (s\<lparr>sem_b := sem_b s - 1, workers_b := (workers_b s)[k := (Waiting, i + 1)]\<rparr>)"

inductive Batch_reachable :: "nat \<Rightarrow> nat \<Rightarrow> nat \<Rightarrow> batch_state \<Rightarrow> bool" for C I Q where
  batch_start: "Batch_reachable C I Q (batch_init Q)"
| batch_next: "Batch_reachable C I Q s \<Longrightarrow> Batch_step C I s s' \<Longrightarrow> Batch_reachable C I Q s'"

definition in_flight_b :: "batch_state \<Rightarrow> nat" where
  "in_flight_b s = length (filter (\<lambda>w. fst w = Running) (workers_b s))"

text \<open>The goroutines between the send and the receive.\<close>

definition held_b :: "batch_state \<Rightarrow> nat" where
  "held_b s = length (filter (\<lambda>w. fst w \<noteq> Waiting) (workers_b s))"

section \<open>Example inputs\<close>

definition low_tag :: "string \<Rightarrow> string" where
  "low_tag sql = ''low''"

definition select1 :: Query where
  "select1 = \<lparr>Name_q = ''q1'', Description_q = [], SQL_q = ''SELECT 1'', Weight_q = 5\<rparr>"

definition select2 :: Query where
  "select2 = \<lparr>Name_q = ''q2'', Description_q = [], SQL_q = ''SELECT 2'', Weight_q = 1\<rparr>"

text \<open>A call that succeeds after \<open>ns\<close> nanoseconds and returns no rows.\<close>

definition ok_call :: "int \<Rightarrow> db_call" where
  "ok_call ns = \<lparr>ctx_ns = 0, issue_ns = ns, issue_err = None, next_ns = [], end_ns = 0,
                 rows_err = None\<rparr>"

text \<open>A call that \<^verbatim>\<open>QueryContext\<close> rejects after 1000 nanoseconds with message \<open>m\<close>.\<close>

definition failed_call :: "string \<Rightarrow> db_call" where
  "failed_call m = \<lparr>ctx_ns = 0, issue_ns = 1000, issue_err = Some m, next_ns = [], end_ns = 0,
                    rows_err = None\<rparr>"

text \<open>Four executions that succeed after 100, 200, 300 and 400 nanoseconds.\<close>

definition four_calls :: "(Time \<times> db_call) list" where
  "four_calls = [(0, ok_call 100), (1, ok_call 200), (2, ok_call 300), (3, ok_call 400)]"

text \<open>A call answered after 5 ns whose three rows take 2 ns each to fetch.\<close>

definition three_rows_call :: db_call where
  "three_rows_call = \<lparr>ctx_ns = 1, issue_ns = 5, issue_err = None, next_ns = [2, 2, 2], end_ns = 1,
                       rows_err = None\<rparr>"

text \<open>
  Two runs of one iteration over the two queries. Before: \<open>q1\<close> takes 100 ms and \<open>q2\<close>
  300 ms. After: \<open>q1\<close> takes 80 ms and the execution of \<open>q2\<close> fails.
\<close>

definition before_run :: "QueryResult list" where
  "before_run = Run low_tag [select1, select2] [[(0, ok_call 100000000)], [(0, ok_call 300000000)]]"

definition after_run :: "QueryResult list" where
  "after_run = Run low_tag [select1, select2]
                 [[(0, ok_call 80000000)], [(0, failed_call ''Deadlock found'')]]"

section \<open>Properties of the Stats Engine\<close>

text \<open>Powers of two and the binary exponent.\<close>

lemma two_pow_powr: "two_pow e = 2 powr (real_of_int e)"
  by (simp add: two_pow_def powr_real_of_int divide_inverse)

lemma two_pow_pos: "0 < two_pow e"
  by (simp add: two_pow_powr)

lemma two_pow_add: "two_pow (a + b) = two_pow a * two_pow b"
  by (simp add: two_pow_powr powr_add)

lemma two_pow_le_iff: "two_pow a \<le> two_pow b \<longleftrightarrow> a \<le> b"
  by (simp add: two_pow_powr)

lemma two_pow_less_iff: "two_pow a < two_pow b \<longleftrightarrow> a < b"
  by (simp add: two_pow_powr)

lemma two_pow_nat: "0 \<le> e \<Longrightarrow> two_pow e = 2 ^ nat e"
  by (simp add: two_pow_def)

lemma two_pow_minus: "two_pow (- a) = 1 / two_pow a"
  by (simp add: two_pow_powr powr_minus divide_inverse)

lemma exponent2_bounds:
  assumes "0 < x"
  shows "two_pow (exponent2 x) \<le> x \<and> x < two_pow (exponent2 x + 1)"
proof (cases "1 \<le> x")
  case True
  let ?m = "\<lfloor>x\<rfloor>"
  have m: "0 < ?m" using True by simp
  have b: "2 ^ nat (bitlen ?m - 1) \<le> ?m" "?m < 2 ^ nat (bitlen ?m)"
    using bitlen_bounds [OF m] by auto
  have b1: "1 \<le> bitlen ?m" using m by (simp add: bitlen_alt_def)
  have e: "exponent2 x = bitlen ?m - 1" using True by (simp add: exponent2_def)
  have lo: "two_pow (bitlen ?m - 1) \<le> x"
  proof -
    have "real_of_int (2 ^ nat (bitlen ?m - 1)) \<le> real_of_int ?m"
      using b(1) of_int_le_iff by blast
    also have "\<dots> \<le> x" by simp
    finally show ?thesis using b1 by (simp add: two_pow_nat)
  qed
  have hi: "x < two_pow (bitlen ?m)"
  proof -
    have "?m + 1 \<le> 2 ^ nat (bitlen ?m)" using b(2) by simp
    then have "real_of_int (?m + 1) \<le> real_of_int (2 ^ nat (bitlen ?m))"
      using of_int_le_iff by blast
    moreover have "x < real_of_int (?m + 1)" by linarith
    ultimately have "x < real_of_int (2 ^ nat (bitlen ?m))" by linarith
    then show ?thesis using b1 by (simp add: two_pow_nat)
  qed
  show ?thesis using lo hi unfolding e by simp
next
  case False
  let ?y = "1 / x"
  let ?m = "\<lceil>?y\<rceil> - 1"
  have y1: "1 < ?y" using False assms by simp
  have m: "0 < ?m" using y1 by linarith
  have b: "2 ^ nat (bitlen ?m - 1) \<le> ?m" "?m < 2 ^ nat (bitlen ?m)"
    using bitlen_bounds [OF m] by auto
  have b1: "1 \<le> bitlen ?m" using m by (simp add: bitlen_alt_def)
  have e: "exponent2 x = - bitlen ?m" using False by (simp add: exponent2_def)
  have ylo: "two_pow (bitlen ?m - 1) < ?y"
  proof -
    have "real_of_int (2 ^ nat (bitlen ?m - 1)) \<le> real_of_int ?m"
      using b(1) of_int_le_iff by blast
    moreover have "real_of_int ?m < ?y" by linarith
    ultimately have "real_of_int (2 ^ nat (bitlen ?m - 1)) < ?y" by linarith
    then show ?thesis using b1 by (simp add: two_pow_nat)
  qed
  have yhi: "?y \<le> two_pow (bitlen ?m)"
  proof -
    have "?m + 1 \<le> 2 ^ nat (bitlen ?m)" using b(2) by simp
    then have "real_of_int (?m + 1) \<le> real_of_int (2 ^ nat (bitlen ?m))"
      using of_int_le_iff by blast
    moreover have "?y \<le> real_of_int (?m + 1)" by linarith
    ultimately have "?y \<le> real_of_int (2 ^ nat (bitlen ?m))" by linarith
    then show ?thesis using b1 by (simp add: two_pow_nat)
  qed
  have lo: "two_pow (- bitlen ?m) \<le> x"
  proof -
    have "1 \<le> x * two_pow (bitlen ?m)" using yhi assms by (simp add: field_simps)
    then have "1 / two_pow (bitlen ?m) \<le> x"
      using two_pow_pos [of "bitlen ?m"] by (simp add: field_simps)
    then show ?thesis by (simp add: two_pow_minus)
  qed
  have hi: "x < two_pow (- bitlen ?m + 1)"
  proof -
    have "x * two_pow (bitlen ?m - 1) < 1" using ylo assms by (simp add: field_simps)
    then have "x < 1 / two_pow (bitlen ?m - 1)"
      using two_pow_pos [of "bitlen ?m - 1"] by (simp add: field_simps)
    moreover have "- bitlen ?m + 1 = - (bitlen ?m - 1)" by simp
    ultimately show ?thesis by (simp only: two_pow_minus)
  qed
  show ?thesis using lo hi unfolding e by simp
qed

lemma exponent2_unique:
  assumes "two_pow a \<le> x" and "x < two_pow (a + 1)"
  shows "exponent2 x = a"
proof -
  have x: "0 < x" using assms(1) two_pow_pos [of a] by linarith
  note b = exponent2_bounds [OF x]
  have "two_pow a < two_pow (exponent2 x + 1)" using assms(1) b by linarith
  then have 1: "a \<le> exponent2 x" by (simp add: two_pow_less_iff)
  have "two_pow (exponent2 x) < two_pow (a + 1)" using assms(2) b by linarith
  then have 2: "exponent2 x \<le> a" by (simp add: two_pow_less_iff)
  show ?thesis using 1 2 by simp
qed

lemma round_even_of_int: "round_even (of_int m) = m"
  by (simp add: round_even_def)

lemma round_even_error: "\<bar>of_int (round_even y) - y\<bar> \<le> 1 / 2"
  unfolding round_even_def Let_def by (auto; linarith)

lemma round_even_ge: "of_int j \<le> y \<Longrightarrow> j \<le> round_even y"
proof -
  assume "of_int j \<le> y"
  then have "j \<le> \<lfloor>y\<rfloor>" by (simp add: le_floor_iff)
  then show ?thesis unfolding round_even_def Let_def by auto
qed

lemma round_even_le: "y \<le> of_int j \<Longrightarrow> round_even y \<le> j"
proof -
  assume a: "y \<le> of_int j"
  then have "\<lfloor>y\<rfloor> \<le> \<lfloor>real_of_int j\<rfloor>" by (rule floor_mono)
  then have f: "\<lfloor>y\<rfloor> \<le> j" by simp
  show ?thesis
  proof (cases "\<lfloor>y\<rfloor> = j")
    case True
    then have "y = of_int \<lfloor>y\<rfloor>" using a by (metis of_int_floor_le order_antisym)
    then have "y - of_int \<lfloor>y\<rfloor> = 0" by simp
    then show ?thesis using True by (simp add: round_even_def Let_def)
  next
    case False
    then have "\<lfloor>y\<rfloor> + 1 \<le> j" using f by simp
    then show ?thesis unfolding round_even_def Let_def by auto
  qed
qed

text \<open>Integers below \<open>2 ^ 53\<close> are \<^verbatim>\<open>float64\<close> values.\<close>

lemma round64_of_int:
  assumes "\<bar>m\<bar> < 2 ^ 53"
  shows "round64 (of_int m) = of_int m"
proof (cases "m = 0")
  case True
  then show ?thesis by (simp add: round64_def)
next
  case False
  let ?a = "\<bar>real_of_int m\<bar>"
  let ?e = "exponent2 ?a"
  have a1: "1 \<le> ?a" using False by (simp flip: of_int_abs)
  have a53: "?a < two_pow 53"
  proof -
    have "real_of_int \<bar>m\<bar> < real_of_int (2 ^ 53)" using assms of_int_less_iff by blast
    then show ?thesis by (simp add: two_pow_def)
  qed
  have pos: "0 < ?a" using a1 by linarith
  note b = exponent2_bounds [OF pos]
  have "two_pow 0 < two_pow (?e + 1)" using a1 b by (simp add: two_pow_def)
  then have e0: "0 \<le> ?e" by (simp add: two_pow_less_iff)
  have "two_pow ?e < two_pow 53" using a53 b by linarith
  then have e52: "?e \<le> 52" by (simp add: two_pow_less_iff)
  define u where "u = two_pow (max (?e - 52) (- 1074))"
  define p :: real where "p = 2 ^ nat (52 - ?e)"
  have p0: "0 < p" by (simp add: p_def)
  have "max (?e - 52) (- 1074) = - (52 - ?e)" using e0 by simp
  moreover have "two_pow (52 - ?e) = p" using e52 unfolding p_def by (intro two_pow_nat) simp
  ultimately have u: "u = 1 / p" unfolding u_def by (simp only: two_pow_minus)
  have "?a / u = ?a * p" unfolding u by simp
  also have "\<dots> = real_of_int (\<bar>m\<bar> * 2 ^ nat (52 - ?e))" by (simp add: p_def)
  finally have q: "?a / u = real_of_int (\<bar>m\<bar> * 2 ^ nat (52 - ?e))" .
  have r: "real_of_int (round_even (?a / u)) = ?a * p"
    unfolding q round_even_of_int by (simp add: p_def)
  have "round64 (of_int m) = sgn (real_of_int m) * (u * of_int (round_even (?a / u)))"
    using False by (simp add: round64_def u_def Let_def)
  also have "u * of_int (round_even (?a / u)) = u * (?a * p)" by (simp only: r)
  also have "u * (?a * p) = ?a" unfolding u using p0 by simp
  also have "sgn (real_of_int m) * ?a = of_int m" by (simp only: sgn_mult_abs)
  finally show ?thesis .
qed

text \<open>The relative error of rounding in the normal range is at most \<open>2\<close> to the \<open>-53\<close>.\<close>

lemma round64_error:
  assumes "two_pow (- 1022) \<le> \<bar>x\<bar>"
  shows "\<bar>round64 x - x\<bar> \<le> \<bar>x\<bar> / 2 ^ 53"
proof -
  let ?a = "\<bar>x\<bar>"
  let ?e = "exponent2 ?a"
  have pos: "0 < ?a" using assms two_pow_pos [of "- 1022"] by linarith
  then have x0: "x \<noteq> 0" by auto
  note b = exponent2_bounds [OF pos]
  have "two_pow (- 1022) < two_pow (?e + 1)" using assms b by linarith
  then have e: "- 1022 \<le> ?e" by (simp add: two_pow_less_iff)
  have mx: "max (?e - 52) (- 1074) = ?e + (- 52)" using e by simp
  let ?u = "two_pow (?e + (- 52))"
  let ?k = "round_even (?a / ?u)"
  have upos: "0 < ?u" by (rule two_pow_pos)
  have u: "?u = two_pow ?e / 2 ^ 52"
    unfolding two_pow_add by (simp add: two_pow_def)
  have r: "round64 x = sgn x * (?u * of_int ?k)"
    using x0 by (simp add: round64_def mx Let_def)
  have "round64 x - x = sgn x * (?u * of_int ?k) - sgn x * ?a"
    unfolding r by (simp only: sgn_mult_abs)
  then have "round64 x - x = sgn x * (?u * of_int ?k - ?a)"
    by (simp only: right_diff_distrib)
  then have "\<bar>round64 x - x\<bar> = \<bar>?u * of_int ?k - ?a\<bar>"
    using x0 by (simp add: abs_mult abs_sgn_eq)
  also have "?u * of_int ?k - ?a = ?u * (of_int ?k - ?a / ?u)"
    using upos by (simp add: algebra_simps)
  also have "\<bar>\<dots>\<bar> = ?u * \<bar>of_int ?k - ?a / ?u\<bar>"
    using upos by (simp add: abs_mult)
  also have "\<dots> \<le> ?u * (1 / 2)"
    using upos round_even_error [of "?a / ?u"] by (intro mult_left_mono) simp_all
  also have "\<dots> = two_pow ?e / 2 ^ 53" unfolding u by simp
  also have "\<dots> \<le> ?a / 2 ^ 53" using b by (intro divide_right_mono) simp_all
  finally show ?thesis .
qed

text \<open>Rounding does not cross an integer below \<open>2 ^ 53\<close>.\<close>

lemma round64_int_bounds:
  assumes "0 < x" and "x < 2 ^ 53"
  shows "of_int m \<le> x \<Longrightarrow> of_int m \<le> round64 x"
    and "x \<le> of_int m \<Longrightarrow> round64 x \<le> of_int m"
proof -
  let ?e = "exponent2 x"
  note b = exponent2_bounds [OF assms(1)]
  have "two_pow ?e < two_pow 53" using assms(2) b by (simp add: two_pow_def)
  then have e52: "?e \<le> 52" by (simp add: two_pow_less_iff)
  define u where "u = two_pow (max (?e - 52) (- 1074))"
  define d where "d = nat (- max (?e - 52) (- 1074))"
  have "0 \<le> - max (?e - 52) (- 1074)" using e52 by simp
  then have "two_pow (- max (?e - 52) (- 1074)) = 2 ^ d" unfolding d_def by (rule two_pow_nat)
  then have u: "u = 1 / 2 ^ d"
    unfolding u_def using two_pow_minus [of "- max (?e - 52) (- 1074)"] by simp
  have upos: "0 < u" unfolding u by simp
  have r: "round64 x = u * of_int (round_even (x / u))"
    using assms(1) by (simp add: round64_def u_def Let_def)
  have c: "u * real_of_int (m * 2 ^ d) = of_int m" unfolding u by simp
  show "of_int m \<le> round64 x" if "of_int m \<le> x"
  proof -
    have "real_of_int (m * 2 ^ d) \<le> x / u" using that unfolding u by (simp add: mult_right_mono)
    then have "m * 2 ^ d \<le> round_even (x / u)" by (rule round_even_ge)
    then have "real_of_int (m * 2 ^ d) \<le> real_of_int (round_even (x / u))"
      using of_int_le_iff by blast
    then have "u * real_of_int (m * 2 ^ d) \<le> u * real_of_int (round_even (x / u))"
      using upos by (intro mult_left_mono) simp_all
    then show ?thesis unfolding r c .
  qed
  show "round64 x \<le> of_int m" if "x \<le> of_int m"
  proof -
    have "x / u \<le> real_of_int (m * 2 ^ d)" using that unfolding u by (simp add: mult_right_mono)
    then have "round_even (x / u) \<le> m * 2 ^ d" by (rule round_even_le)
    then have "real_of_int (round_even (x / u)) \<le> real_of_int (m * 2 ^ d)"
      using of_int_le_iff by blast
    then have "u * real_of_int (round_even (x / u)) \<le> u * real_of_int (m * 2 ^ d)"
      using upos by (intro mult_left_mono) simp_all
    then show ?thesis unfolding r c .
  qed
qed

lemma floor_sqrt_eq:
  assumes "0 \<le> k" and "real_of_int (k * k) \<le> v" and "v < real_of_int ((k + 1) * (k + 1))"
  shows "\<lfloor>sqrt v\<rfloor> = k"
proof -
  have lo: "real_of_int k \<le> sqrt v"
    using assms(2) by (intro real_le_rsqrt) (simp add: power2_eq_square)
  have hi: "sqrt v < real_of_int k + 1"
    using assms(1,3) by (intro real_less_lsqrt) (simp_all add: power2_eq_square)
  show ?thesis using lo hi by (intro floor_unique) simp_all
qed

lemma isqrt_between_correct:
  "0 \<le> lo \<Longrightarrow> lo * lo \<le> n \<Longrightarrow> n < hi * hi \<Longrightarrow> 0 \<le> hi \<Longrightarrow>
   0 \<le> isqrt_between lo hi n
   \<and> isqrt_between lo hi n * isqrt_between lo hi n \<le> n
   \<and> n < (isqrt_between lo hi n + 1) * (isqrt_between lo hi n + 1)"
proof (induction lo hi n rule: isqrt_between.induct)
  case (1 lo hi n)
  have lt: "lo < hi"
  proof (rule ccontr)
    assume "\<not> lo < hi"
    then have "hi * hi \<le> lo * lo" using "1.prems" by (simp add: mult_mono)
    then show False using "1.prems" by linarith
  qed
  show ?case
  proof (cases "hi \<le> lo + 1")
    case True
    then have "isqrt_between lo hi n = lo" by (simp add: isqrt_between.simps [of lo hi n])
    moreover have "hi = lo + 1" using True lt by linarith
    ultimately show ?thesis using "1.prems" by simp
  next
    case False
    let ?mid = "(lo + hi) div 2"
    have mid: "0 \<le> ?mid" using "1.prems" by simp
    show ?thesis
    proof (cases "?mid * ?mid \<le> n")
      case True
      then show ?thesis
        using "1.IH"(1) [OF False refl True mid True "1.prems"(3,4)] False
        by (simp add: isqrt_between.simps [of lo hi n] Let_def)
    next
      case F: False
      then have "n < ?mid * ?mid" by simp
      then show ?thesis
        using "1.IH"(2) [OF False refl F "1.prems"(1,2) _ mid] False F
        by (simp add: isqrt_between.simps [of lo hi n] Let_def)
    qed
  qed
qed

lemma floor_sqrt_isqrt:
  assumes "0 \<le> w"
  shows "\<lfloor>sqrt w\<rfloor> = isqrt_between 0 (\<lfloor>w\<rfloor> + 1) \<lfloor>w\<rfloor>"
proof -
  let ?n = "\<lfloor>w\<rfloor>"
  let ?k = "isqrt_between 0 (?n + 1) ?n"
  have n0: "0 \<le> ?n" using assms by simp
  have n: "real_of_int ?n \<le> w" "w < real_of_int ?n + 1" by linarith+
  have sq: "0 \<le> ?n * ?n" by simp
  have "(?n + 1) * (?n + 1) = ?n * ?n + 2 * ?n + 1" by (simp add: algebra_simps)
  then have "?n < (?n + 1) * (?n + 1)" using n0 sq by linarith
  then have k: "0 \<le> ?k" "?k * ?k \<le> ?n" "?n < (?k + 1) * (?k + 1)"
    using isqrt_between_correct [of 0 ?n "?n + 1"] n0 by simp_all
  have lo: "real_of_int (?k * ?k) \<le> w"
  proof -
    have "real_of_int (?k * ?k) \<le> real_of_int ?n" using k(2) of_int_le_iff by blast
    then show ?thesis using n(1) by linarith
  qed
  have hi: "w < real_of_int ((?k + 1) * (?k + 1))"
  proof -
    have "?n + 1 \<le> (?k + 1) * (?k + 1)" using k(3) by simp
    then have "real_of_int (?n + 1) \<le> real_of_int ((?k + 1) * (?k + 1))"
      using of_int_le_iff by blast
    moreover have "real_of_int (?n + 1) = real_of_int ?n + 1" by simp
    ultimately show ?thesis using n(2) by linarith
  qed
  show ?thesis using k(1) lo hi by (rule floor_sqrt_eq)
qed

lemma sqrt_less_iff_square: "0 \<le> y \<Longrightarrow> sqrt w < y \<longleftrightarrow> w < y * y"
  by (metis abs_of_nonneg real_sqrt_abs2 real_sqrt_less_iff)

lemma sqrt_greater_iff_square: "0 \<le> y \<Longrightarrow> y < sqrt w \<longleftrightarrow> y * y < w"
  by (metis abs_of_nonneg real_sqrt_abs2 real_sqrt_less_iff)

lemma round_even_sqrt:
  assumes "0 \<le> w"
  shows "round_even (sqrt w) =
           (let k = \<lfloor>sqrt w\<rfloor>; h = (of_int k + 1 / 2) * (of_int k + 1 / 2)
            in if w < h then k else if h < w then k + 1 else if even k then k else k + 1)"
proof -
  let ?k = "\<lfloor>sqrt w\<rfloor>"
  let ?y = "real_of_int ?k + 1 / 2"
  have k0: "0 \<le> ?k" using assms by simp
  then have y0: "0 \<le> ?y" by simp
  have "sqrt w - of_int ?k < 1 / 2 \<longleftrightarrow> sqrt w < ?y" by linarith
  then have a: "sqrt w - of_int ?k < 1 / 2 \<longleftrightarrow> w < ?y * ?y"
    using sqrt_less_iff_square [OF y0, of w] by blast
  have "1 / 2 < sqrt w - of_int ?k \<longleftrightarrow> ?y < sqrt w" by linarith
  then have b: "1 / 2 < sqrt w - of_int ?k \<longleftrightarrow> ?y * ?y < w"
    using sqrt_greater_iff_square [OF y0, of w] by blast
  show ?thesis unfolding round_even_def Let_def a b by simp
qed

lemma exponent2_sqrt:
  assumes "0 < v"
  shows "exponent2 (sqrt v) = exponent2 v div 2"
proof (rule exponent2_unique)
  let ?e = "exponent2 v"
  let ?h = "?e div 2"
  note b = exponent2_bounds [OF assms]
  have sq: "\<And>a. sqrt (two_pow a * two_pow a) = two_pow a"
    using two_pow_pos by (simp add: less_imp_le)
  have "?h + ?h \<le> ?e" by presburger
  then have "two_pow (?h + ?h) \<le> two_pow ?e" by (simp only: two_pow_le_iff)
  then have "two_pow ?h * two_pow ?h \<le> v" using b unfolding two_pow_add by linarith
  then have "sqrt (two_pow ?h * two_pow ?h) \<le> sqrt v" by (simp only: real_sqrt_le_iff)
  then show "two_pow ?h \<le> sqrt v" unfolding sq .
  have "?e + 1 \<le> (?h + 1) + (?h + 1)" by presburger
  then have "two_pow (?e + 1) \<le> two_pow ((?h + 1) + (?h + 1))"
    by (simp only: two_pow_le_iff)
  then have "v < two_pow (?h + 1) * two_pow (?h + 1)" using b unfolding two_pow_add by linarith
  then have "sqrt v < sqrt (two_pow (?h + 1) * two_pow (?h + 1))"
    by (simp only: real_sqrt_less_iff)
  then show "sqrt v < two_pow (?h + 1)" unfolding sq .
qed

lemma sqrt_ns_between:
  assumes "1 \<le> k" and "k < 2 ^ 25" and "real_of_int (k * k) \<le> v"
    and "v \<le> real_of_int (k * k + 2 * k)"
  shows "sqrt_ns v = k"
proof -
  let ?K = "real_of_int k"
  let ?s = "sqrt v"
  define dl :: real where "dl = 1 / 2 ^ 26"
  let ?y = "?K + 1 - dl"
  have K: "1 \<le> ?K" "?K + 1 \<le> 2 ^ 25"
  proof -
    show "1 \<le> ?K" using assms(1) by simp
    have "k + 1 \<le> 2 ^ 25" using assms(2) by simp
    then have "real_of_int (k + 1) \<le> real_of_int (2 ^ 25)" using of_int_le_iff by blast
    then show "?K + 1 \<le> 2 ^ 25" by simp
  qed
  have v1: "1 \<le> v"
  proof -
    have "1 * 1 \<le> ?K * ?K" using K(1) by (intro mult_mono) simp_all
    then show ?thesis using assms(3) by simp
  qed
  have lo: "?K \<le> ?s"
    using assms(3) by (intro real_le_rsqrt) (simp add: power2_eq_square)
  have dl: "0 < dl" "dl < 1" "2 * dl * 2 ^ 25 = 1" by (simp_all add: dl_def)
  have y0: "0 \<le> ?y" using K(1) dl by simp
  have yy: "?y * ?y = (?K * ?K + 2 * ?K) + (1 - 2 * dl * (?K + 1)) + dl * dl"
    by (simp add: algebra_simps)
  have "2 * dl * (?K + 1) \<le> 2 * dl * 2 ^ 25"
    using K(2) dl(1) by (intro mult_left_mono) simp_all
  then have p: "0 \<le> 1 - 2 * dl * (?K + 1)" unfolding dl(3) by linarith
  have q: "0 < dl * dl" using dl(1) by simp
  have v4: "v \<le> ?K * ?K + 2 * ?K" using assms(4) by simp
  have "v < ?y * ?y" unfolding yy using v4 p q by linarith
  then have hi: "?s < ?y" using sqrt_less_iff_square [OF y0] by blast
  have s53: "?s < 2 ^ 53" using hi K(2) dl(1) by simp
  have s0: "0 < ?s" using lo K(1) by linarith
  have "two_pow (- 1022) \<le> 1" using two_pow_le_iff [of "- 1022" 0] by (simp add: two_pow_def)
  then have "two_pow (- 1022) \<le> \<bar>?s\<bar>" using lo K(1) by linarith
  then have "\<bar>round64 ?s - ?s\<bar> \<le> \<bar>?s\<bar> / 2 ^ 53" by (rule round64_error)
  moreover have "\<bar>?s\<bar> / 2 ^ 53 < dl"
  proof -
    have "\<bar>?s\<bar> < 2 ^ 25" using hi K(2) s0 dl(1) by simp
    then have "\<bar>?s\<bar> / 2 ^ 53 < 2 ^ 25 / 2 ^ 53" by (intro divide_strict_right_mono) simp_all
    then show ?thesis by (simp add: dl_def)
  qed
  ultimately have up: "round64 ?s < ?K + 1" using hi by linarith
  have dn: "?K \<le> round64 ?s" using lo by (rule round64_int_bounds(1) [OF s0 s53])
  have fl: "\<lfloor>round64 ?s\<rfloor> = k" using dn up by (intro floor_unique) simp_all
  have "0 \<le> round64 ?s" using dn K(1) by linarith
  then have "float_int64 (round64 ?s) = k"
    using fl assms(1,2) by (simp add: float_int64_def Let_def)
  then show ?thesis using v1 by (simp add: sqrt_ns_def)
qed

lemma sqrt_ns_code [code]:
  "sqrt_ns v =
     (if v < 0 then - (2 ^ 63)
      else if v = 0 then 0
      else (let u = two_pow (max (exponent2 v div 2 - 52) (- 1074));
                w = v / (u * u);
                k = isqrt_between 0 (\<lfloor>w\<rfloor> + 1) \<lfloor>w\<rfloor>;
                h = (of_int k + 1 / 2) * (of_int k + 1 / 2);
                m = (if w < h then k else if h < w then k + 1 else if even k then k else k + 1)
            in float_int64 (u * of_int m)))"
proof -
  consider "v < 0" | "v = 0" | "0 < v" by linarith
  then show ?thesis
  proof cases
    case 1
    then show ?thesis by (simp add: sqrt_ns_def)
  next
    case 2
    then show ?thesis by (simp add: sqrt_ns_def round64_def float_int64_def)
  next
    case 3
    define u where "u = two_pow (max (exponent2 v div 2 - 52) (- 1074))"
    define w where "w = v / (u * u)"
    define k where "k = isqrt_between 0 (\<lfloor>w\<rfloor> + 1) \<lfloor>w\<rfloor>"
    define h where "h = (real_of_int k + 1 / 2) * (real_of_int k + 1 / 2)"
    define m where "m = (if w < h then k else if h < w then k + 1 else if even k then k else k + 1)"
    have upos: "0 < u" unfolding u_def by (rule two_pow_pos)
    have w0: "0 \<le> w" unfolding w_def using 3 upos by simp
    have s0: "0 < sqrt v" using 3 by simp
    have "sqrt (u * u) = u" using upos by simp
    then have su: "sqrt v / u = sqrt w"
      unfolding w_def by (simp only: real_sqrt_divide)
    have ex: "max (exponent2 \<bar>sqrt v\<bar> - 52) (- 1074) = max (exponent2 v div 2 - 52) (- 1074)"
      using s0 exponent2_sqrt [OF 3] by simp
    have "round64 (sqrt v) = sgn (sqrt v) * (u * of_int (round_even (\<bar>sqrt v\<bar> / u)))"
      using s0 unfolding round64_def Let_def ex u_def by simp
    also have "\<dots> = u * of_int (round_even (sqrt v / u))" using s0 by simp
    finally have r: "round64 (sqrt v) = u * of_int (round_even (sqrt w))" unfolding su .
    have fk: "\<lfloor>sqrt w\<rfloor> = k" unfolding k_def by (rule floor_sqrt_isqrt [OF w0])
    have "round_even (sqrt w) = m"
      unfolding round_even_sqrt [OF w0] fk Let_def m_def h_def ..
    then have "sqrt_ns v = float_int64 (u * of_int m)"
      using 3 r by (simp add: sqrt_ns_def)
    moreover have "\<not> v < 0" "v \<noteq> 0" using 3 by simp_all
    ultimately show ?thesis
      unfolding Let_def u_def [symmetric] w_def [symmetric] k_def [symmetric] h_def [symmetric]
        m_def [symmetric]
      by (simp only: if_False)
  qed
qed

lemma float_int_nonneg: "0 \<le> x \<Longrightarrow> float_int x = \<lfloor>x\<rfloor>"
  by (simp add: float_int_def)

lemma clamp_idx_eq:
  assumes "0 < n" and "0 \<le> f"
  shows "clamp_idx n f = min (nat \<lfloor>real n * f\<rfloor>) (n - 1)"
proof -
  have "0 \<le> real n * f" using assms by simp
  then have fi: "float_int (real n * f) = \<lfloor>real n * f\<rfloor>" by (rule float_int_nonneg)
  have "0 \<le> \<lfloor>real n * f\<rfloor>" using \<open>0 \<le> real n * f\<close> by simp
  then show ?thesis using assms(1) unfolding clamp_idx_def Let_def fi
    by (auto simp: min_def)
qed

lemma round64_of_nat:
  assumes "m < 2 ^ 53"
  shows "round64 (real m) = real m"
proof -
  have "int m < int (2 ^ 53)" using assms of_nat_less_iff by blast
  then have "\<bar>int m\<bar> < 2 ^ 53" by simp
  then have "round64 (of_int (int m)) = of_int (int m)" by (rule round64_of_int)
  then show ?thesis by simp
qed

text \<open>
  The quotient \<open>n * k / 100\<close> of \<^verbatim>\<open>CalculatePercentile\<close> for a whole-number percentile
  \<open>k\<close>: the product is exact and the rounded quotient has the integer part of the exact
  one.
\<close>

lemma percentile_quotient:
  assumes "n < 2 ^ 44" and "k \<le> 100"
  shows "\<lfloor>round64 (round64 (round64 (real n) * real k) / 100)\<rfloor> = int (n * k div 100)"
proof -
  have nk100: "n * k < 2 ^ 44 * 100"
  proof -
    have "n * k \<le> n * 100" using assms(2) by simp
    also have "\<dots> < 2 ^ 44 * 100" using assms(1) by simp
    finally show ?thesis .
  qed
  then have nk: "n * k < 2 ^ 51" by simp
  have "n < 2 ^ 53" using assms(1) by (rule less_trans) simp
  then have "round64 (real n) = real n" by (rule round64_of_nat)
  moreover have "n * k < 2 ^ 53" using nk by (rule less_trans) simp
  then have "round64 (real (n * k)) = real (n * k)" by (rule round64_of_nat)
  ultimately have p: "round64 (round64 (real n) * real k) = real (n * k)" by simp
  let ?q = "real (n * k) / 100"
  let ?M = "int (n * k div 100)"
  have lo: "real_of_int ?M \<le> ?q"
  proof -
    have "(n * k div 100) * 100 \<le> n * k" by simp
    then have "real ((n * k div 100) * 100) \<le> real (n * k)" using of_nat_le_iff by blast
    then show ?thesis by simp
  qed
  have hi: "?q \<le> real_of_int ?M + 99 / 100"
  proof -
    have "n * k mod 100 \<le> 99" by simp
    moreover have "n * k = (n * k div 100) * 100 + n * k mod 100" by simp
    ultimately have "n * k \<le> (n * k div 100) * 100 + 99" by linarith
    then have "real (n * k) \<le> real ((n * k div 100) * 100 + 99)" using of_nat_le_iff by blast
    then show ?thesis by simp
  qed
  show ?thesis
  proof (cases "n * k = 0")
    case True
    then have "real (n * k) / 100 = 0" "n * k div 100 = 0" by auto
    then show ?thesis unfolding p by (simp add: round64_def)
  next
    case False
    then have "1 \<le> n * k" by simp
    then have "real 1 \<le> real (n * k)" using of_nat_le_iff by blast
    then have q0: "1 / 100 \<le> ?q" by simp
    have q44: "?q < 2 ^ 44"
    proof -
      have "real (n * k) < real (2 ^ 44 * 100)" using nk100 of_nat_less_iff by blast
      then show ?thesis by simp
    qed
    have qpos: "0 < ?q" using q0 by linarith
    have q53: "?q < 2 ^ 53" using q44 by simp
    have dn: "real_of_int ?M \<le> round64 ?q" using lo by (rule round64_int_bounds(1) [OF qpos q53])
    have "two_pow (- 1022) \<le> two_pow (- 7)" by (simp only: two_pow_le_iff)
    also have "two_pow (- 7) \<le> 1 / 100" by (simp add: two_pow_def)
    finally have "two_pow (- 1022) \<le> \<bar>?q\<bar>" using q0 by linarith
    then have "\<bar>round64 ?q - ?q\<bar> \<le> \<bar>?q\<bar> / 2 ^ 53" by (rule round64_error)
    moreover have "\<bar>?q\<bar> / 2 ^ 53 < 1 / 100"
    proof -
      have "\<bar>?q\<bar> < 2 ^ 44" using q44 qpos by simp
      then have "\<bar>?q\<bar> / 2 ^ 53 < 2 ^ 44 / 2 ^ 53" by (intro divide_strict_right_mono) simp_all
      then show ?thesis by simp
    qed
    ultimately have up: "round64 ?q < real_of_int ?M + 1" using hi by linarith
    show ?thesis unfolding p using dn up by (intro floor_unique) simp_all
  qed
qed

lemma floor_percent: "\<lfloor>real n * real k / 100\<rfloor> = int (n * k div 100)"
proof -
  have "real n * real k / 100 = real (n * k) / real 100" by simp
  then show ?thesis by (simp only: floor_divide_of_nat_eq)
qed

text \<open>
  Claim C10, amended. For a non-empty sequence \<open>D\<close> of fewer than \<open>2 ^ 44\<close> elements and
  a whole-number percentile \<open>k\<close> from 0 to 100, \<^verbatim>\<open>CalculatePercentile\<close> returns the element
  of \<open>D\<close> sorted ascending at index \<open>min (floor (|D| * k / 100)) (|D| - 1)\<close>; the median,
  p95 and p99 of \<^verbatim>\<open>CalculateStats\<close> are the elements at the indices for 50, 95 and 99.
  For a sequence of one element \<open>x\<close>, p95 and p99 are \<open>x\<close>.
\<close>

theorem percentile_nearest_rank:
  assumes "D \<noteq> []" and "length D < 2 ^ 44" and "k \<le> 100"
  shows "CalculatePercentile D (real k) =
           Some (sort D ! min (nat \<lfloor>real (length D) * real k / 100\<rfloor>) (length D - 1))
       \<and> Median (CalculateStats D) = sort D ! min (nat \<lfloor>real (length D) * 50 / 100\<rfloor>) (length D - 1)
       \<and> P95 (CalculateStats D) = sort D ! min (nat \<lfloor>real (length D) * 95 / 100\<rfloor>) (length D - 1)
       \<and> P99 (CalculateStats D) = sort D ! min (nat \<lfloor>real (length D) * 99 / 100\<rfloor>) (length D - 1)
       \<and> P95 (CalculateStats [x]) = x \<and> P99 (CalculateStats [x]) = x"
proof -
  let ?n = "length D"
  let ?M = "?n * k div 100"
  have n: "0 < ?n" using assms(1) by simp
  have q: "\<lfloor>round64 (round64 (round64 (real ?n) * real k) / 100)\<rfloor> = int ?M"
    using assms(2,3) by (rule percentile_quotient)
  have "?M \<le> ?n" 
  proof -
    have "?n * k \<le> ?n * 100" using assms(3) by simp
    then have "?n * k div 100 \<le> ?n * 100 div 100" by (rule div_le_mono)
    then show ?thesis by simp
  qed
  then have "int ?M < 2 ^ 63" using assms(2) by (simp add: order_le_less_trans [where y = "2 ^ 44"])
  then have fi: "float_int64 (real_of_int (int ?M)) = int ?M"
    by (simp add: float_int64_def Let_def)
  have a: "CalculatePercentile D (real k) = Some (sort D ! min ?M (?n - 1))"
  proof (cases "?M \<ge> ?n")
    case True
    then have "min ?M (?n - 1) = ?n - 1" by simp
    moreover have "nat (int ?n - 1) = ?n - 1" by simp
    ultimately show ?thesis using True n
      unfolding CalculatePercentile_def Let_def q fi by simp
  next
    case False
    then have "min ?M (?n - 1) = ?M" by simp
    then show ?thesis using False n
      unfolding CalculatePercentile_def Let_def q fi by simp
  qed
  have a': "CalculatePercentile D (real k) =
           Some (sort D ! min (nat \<lfloor>real ?n * real k / 100\<rfloor>) (?n - 1))"
    unfolding floor_percent using a by simp
  have st: "\<And>E. E \<noteq> [] \<Longrightarrow> Median (CalculateStats E) = sort E ! clamp_idx (length E) 0.5
       \<and> P95 (CalculateStats E) = sort E ! clamp_idx (length E) 0.95
       \<and> P99 (CalculateStats E) = sort E ! clamp_idx (length E) 0.99"
    by (simp add: CalculateStats_def Let_def)
  have c50: "clamp_idx ?n 0.5 = min (nat \<lfloor>real ?n * 50 / 100\<rfloor>) (?n - 1)"
    using clamp_idx_eq [OF n, of "0.5"] by (simp add: mult.commute)
  have c95: "clamp_idx ?n 0.95 = min (nat \<lfloor>real ?n * 95 / 100\<rfloor>) (?n - 1)"
    using clamp_idx_eq [OF n, of "0.95"] by (simp add: mult.commute)
  have c99: "clamp_idx ?n 0.99 = min (nat \<lfloor>real ?n * 99 / 100\<rfloor>) (?n - 1)"
    using clamp_idx_eq [OF n, of "0.99"] by (simp add: mult.commute)
  have one: "P95 (CalculateStats [x]) = x \<and> P99 (CalculateStats [x]) = x"
    using st [of "[x]"] by (simp add: clamp_idx_def float_int_def)
  show ?thesis using a' st [OF assms(1)] c50 c95 c99 one by simp
qed

theorem percentile_nearest_rank_witness:
  "[30, 10, 20 :: int] \<noteq> [] \<and> length [30, 10, 20 :: int] < 2 ^ 44 \<and> (50 :: nat) \<le> 100
   \<and> CalculatePercentile [30, 10, 20] 50 = Some 20
   \<and> P95 (CalculateStats [30, 10, 20]) = 30"
  using percentile_nearest_rank [of "[30, 10, 20]" 50 0] by simp

text \<open>The rounding of a positive real whose binary exponent is known.\<close>

lemma round64_exponent:
  assumes "two_pow e \<le> x" and "x < two_pow (e + 1)" and "- 1022 \<le> e"
  shows "round64 x = two_pow (e - 52) * of_int (round_even (x / two_pow (e - 52)))"
proof -
  have x: "0 < x" using assms(1) two_pow_pos [of e] by linarith
  have "exponent2 \<bar>x\<bar> = e" using assms(1,2) x by (simp add: exponent2_unique)
  then have "max (exponent2 \<bar>x\<bar> - 52) (- 1074) = e - 52" using assms(3) by simp
  then show ?thesis using x by (simp add: round64_def Let_def)
qed

text \<open>
  Claim C10 as stated fails: the product and the quotient are rounded to \<^verbatim>\<open>float64\<close>
  before the floor is taken. For 125 durations and the \<^verbatim>\<open>float64\<close> nearest to 2.4, which
  lies below 2.4, the product rounds up to 300 and the function returns the element at
  index 3; the floor of the exact \<open>|D| * p / 100\<close> is 2.
\<close>

theorem percentile_float_rounding:
  "CalculatePercentile (map int [0..<125]) (5404319552844595 / 2 ^ 51) = Some 3
   \<and> sort (map int [0..<125])
       ! min (nat \<lfloor>real (length (map int [0..<125])) * (5404319552844595 / 2 ^ 51) / 100\<rfloor>)
           (length (map int [0..<125]) - 1) = 2"
proof -
  let ?D = "map int [0..<125]"
  let ?p = "5404319552844595 / 2 ^ 51 :: real"
  have srt: "sort ?D = ?D"
    by (rule sort_key_id_if_sorted) (simp add: sorted_iff_nth_mono)
  have len: "length ?D = 125" by simp
  have n: "round64 (real 125) = 125" using round64_of_nat [of 125] by simp
  have "round64 (125 * ?p) = two_pow (8 - 52) * of_int (round_even (125 * ?p / two_pow (8 - 52)))"
    by (rule round64_exponent) (simp_all add: two_pow_def)
  also have "125 * ?p / two_pow (8 - 52) = 675539944105574375 / 128" by (simp add: two_pow_def)
  also have "round_even (675539944105574375 / 128) = 5277655813324800"
    by (simp add: round_even_def Let_def)
  finally have prod: "round64 (125 * ?p) = 300" by (simp add: two_pow_def)
  have q: "round64 (300 / 100) = 3" using round64_of_nat [of 3] by simp
  have fi: "float_int64 3 = 3" by (simp add: float_int64_def Let_def)
  have a: "CalculatePercentile ?D ?p = Some (?D ! 3)"
    unfolding CalculatePercentile_def Let_def srt len n prod q by (simp add: fi)
  have b: "\<lfloor>real 125 * ?p / 100\<rfloor> = 2" by simp
  have c: "?D ! 3 = 3" "?D ! 2 = 2" by simp_all
  show ?thesis unfolding srt len b using a c by simp
qed

lemma round64_18: "round64 18 = 18" "round64 9 = 9" "round64 1 = 1" "round64 2 = 2"
  using round64_of_nat [of 18] round64_of_nat [of 9] round64_of_nat [of 1] round64_of_nat [of 2]
  by simp_all

text \<open>
  Claim C4. On the durations 0 ns and 6 ns with mean 3 ns the sum of the squared
  deviations is 18. \<^verbatim>\<open>CalculateStandardDeviation\<close> divides it by \<open>N - 1 = 1\<close> and returns
  4 ns (the truncated root of 18); \<^verbatim>\<open>CalculateStats\<close> divides it by \<open>N = 2\<close> and returns
  3 ns. The two functions do not follow one convention.
\<close>

theorem stddev_divisor_differs:
  "CalculateStandardDeviation [0, 6] 3 = 4 \<and> StdDev (CalculateStats [0, 6]) = 3
   \<and> Mean (CalculateStats [0, 6]) = 3"
proof -
  have s: "sum_squares 0 3 [0, 6] = 18" by (simp add: wrap64_def)
  have a: "sqrt_ns 18 = 4" by (rule sqrt_ns_between) simp_all
  have b: "sqrt_ns 9 = 3" by (rule sqrt_ns_between) simp_all
  have m: "sum_durations 0 [0, 6] = 6" by (simp add: wrap64_def)
  show ?thesis using s a b m
    by (simp add: CalculateStandardDeviation_def CalculateStats_def tdiv_def Let_def round64_18)
qed

section \<open>Properties of merging and finalization\<close>

text \<open>The fields of a result after one merge, and after all merges, in closed form.\<close>

lemma merge_Run_fields:
  "Errors (fst (merge_Run q st qr)) = Errors (fst st) + (if err qr = None then 0 else 1)"
  "SuccessfulExecutions (fst (merge_Run q st qr)) = SuccessfulExecutions (fst st) + (if err qr = None then 1 else 0)"
  "length (Executions (fst (merge_Run q st qr))) = length (Executions (fst st)) + 1"
  "ErrorDetails (fst (merge_Run q st qr)) =
     (case err qr of None \<Rightarrow> ErrorDetails (fst st)
      | Some e \<Rightarrow> if length (ErrorDetails (fst st)) < 10 then ErrorDetails (fst st) @ [e] else ErrorDetails (fst st))"
  "TotalDuration (fst (merge_Run q st qr)) =
     (if err qr = None then wrap64 (TotalDuration (fst st) + duration qr) else TotalDuration (fst st))"
  "MinDuration (fst (merge_Run q st qr)) =
     (if err qr = None then min (duration qr) (MinDuration (fst st)) else MinDuration (fst st))"
  "snd (merge_Run q st qr) = (if err qr = None then snd st @ [duration qr] else snd st)"
  by (simp_all add: merge_Run_def Let_def min_def split: option.splits)

lemma merge_Batch_fields:
  "Errors (merge_Batch r e) = Errors r + (if Error e = None then 0 else 1)"
  "SuccessfulExecutions (merge_Batch r e) = SuccessfulExecutions r + (if Error e = None then 1 else 0)"
  "Executions (merge_Batch r e) = Executions r @ [e]"
  "ErrorDetails (merge_Batch r e) =
     (if Error e = None then ErrorDetails r
      else if length (ErrorDetails r) < 10 then ErrorDetails r @ [ErrorMessage e] else ErrorDetails r)"
  "TotalDuration (merge_Batch r e) =
     (if Error e = None then wrap64 (TotalDuration r + Duration e) else TotalDuration r)"
  "MinDuration (merge_Batch r e) =
     (if Error e = None then min (Duration e) (MinDuration r) else MinDuration r)"
  by (simp_all add: merge_Batch_def Let_def min_def)

lemma sum_durations_snoc: "sum_durations tot (ds @ [d]) = wrap64 (sum_durations tot ds + d)"
  by (induction ds arbitrary: tot) simp_all

lemma take_10_step:
  "(if length (take 10 xs) < 10 then take 10 xs @ [e] else take 10 xs) = take 10 (xs @ [e])"
  by (cases "length xs < 10") simp_all

lemma Min_step:
  "finite S \<Longrightarrow> min d (Min (insert m S)) = Min (insert m (insert d S))"
  by (simp add: insert_commute [of m d])

lemma foldl_merge_Run:
  "Errors (fst (foldl (merge_Run q) st qrs)) =
     Errors (fst st) + int (length (filter (\<lambda>r. err r \<noteq> None) qrs))"
  "SuccessfulExecutions (fst (foldl (merge_Run q) st qrs)) =
     SuccessfulExecutions (fst st) + int (length (filter (\<lambda>r. err r = None) qrs))"
  "length (Executions (fst (foldl (merge_Run q) st qrs))) = length (Executions (fst st)) + length qrs"
  "snd (foldl (merge_Run q) st qrs) = snd st @ map duration (filter (\<lambda>r. err r = None) qrs)"
  "TotalDuration (fst (foldl (merge_Run q) st qrs)) =
     sum_durations (TotalDuration (fst st)) (map duration (filter (\<lambda>r. err r = None) qrs))"
  by (induction qrs rule: rev_induct)
     (simp_all add: merge_Run_fields sum_durations_snoc)

lemma foldl_merge_Run_min:
  "MinDuration (fst (foldl (merge_Run q) st qrs)) =
     Min (insert (MinDuration (fst st)) (set (map duration (filter (\<lambda>r. err r = None) qrs))))"
proof (induction qrs rule: rev_induct)
  case Nil
  then show ?case by simp
next
  case (snoc x xs)
  show ?case
  proof (cases "err x = None")
    case True
    have "MinDuration (fst (foldl (merge_Run q) st (xs @ [x]))) =
            min (duration x) (Min (insert (MinDuration (fst st))
                  (set (map duration (filter (\<lambda>r. err r = None) xs)))))"
      using True snoc by (simp add: merge_Run_fields)
    also have "\<dots> = Min (insert (MinDuration (fst st))
                  (insert (duration x) (set (map duration (filter (\<lambda>r. err r = None) xs)))))"
      by (rule Min_step) simp
    finally show ?thesis using True by simp
  next
    case False
    then obtain e where "err x = Some e" by auto
    then show ?thesis using snoc by (simp add: merge_Run_fields)
  qed
qed

lemma foldl_merge_Run_details:
  "ErrorDetails (fst st) = take 10 L \<Longrightarrow>
   ErrorDetails (fst (foldl (merge_Run q) st qrs)) = take 10 (L @ List.map_filter err qrs)"
proof (induction qrs rule: rev_induct)
  case Nil
  then show ?case by (simp add: List.map_filter_simps)
next
  case (snoc x xs)
  have ih: "ErrorDetails (fst (foldl (merge_Run q) st xs)) = take 10 (L @ List.map_filter err xs)"
    using snoc by blast
  show ?case
  proof (cases "err x")
    case None
    then show ?thesis using ih by (simp add: merge_Run_fields List.map_filter_def)
  next
    case (Some e)
    have mf: "L @ List.map_filter err (xs @ [x]) = (L @ List.map_filter err xs) @ [e]"
      using Some by (simp add: List.map_filter_def)
    have "ErrorDetails (fst (foldl (merge_Run q) st (xs @ [x]))) =
            (if length (take 10 (L @ List.map_filter err xs)) < 10
             then take 10 (L @ List.map_filter err xs) @ [e]
             else take 10 (L @ List.map_filter err xs))"
      using Some by (simp add: merge_Run_fields ih del: take_append length_take)
    then show ?thesis unfolding mf take_10_step .
  qed
qed

lemma foldl_merge_Batch:
  "Errors (foldl merge_Batch r es) = Errors r + int (length (filter (\<lambda>e. Error e \<noteq> None) es))"
  "SuccessfulExecutions (foldl merge_Batch r es) =
     SuccessfulExecutions r + int (length (filter (\<lambda>e. Error e = None) es))"
  "Executions (foldl merge_Batch r es) = Executions r @ es"
  "TotalDuration (foldl merge_Batch r es) =
     sum_durations (TotalDuration r) (map Duration (filter (\<lambda>e. Error e = None) es))"
  by (induction es rule: rev_induct)
     (simp_all add: merge_Batch_fields sum_durations_snoc)

lemma foldl_merge_Batch_min:
  "MinDuration (foldl merge_Batch r es) =
     Min (insert (MinDuration r) (set (map Duration (filter (\<lambda>e. Error e = None) es))))"
proof (induction es rule: rev_induct)
  case Nil
  then show ?case by simp
next
  case (snoc x xs)
  show ?case
  proof (cases "Error x = None")
    case True
    have "MinDuration (foldl merge_Batch r (xs @ [x])) =
            min (Duration x) (Min (insert (MinDuration r)
                  (set (map Duration (filter (\<lambda>e. Error e = None) xs)))))"
      using True snoc by (simp add: merge_Batch_fields)
    also have "\<dots> = Min (insert (MinDuration r)
                  (insert (Duration x) (set (map Duration (filter (\<lambda>e. Error e = None) xs)))))"
      by (rule Min_step) simp
    finally show ?thesis using True by simp
  next
    case False
    then obtain e where "Error x = Some e" by auto
    then show ?thesis using snoc by (simp add: merge_Batch_fields)
  qed
qed

lemma foldl_merge_Batch_details:
  "ErrorDetails r = take 10 L \<Longrightarrow>
   ErrorDetails (foldl merge_Batch r es) =
     take 10 (L @ map ErrorMessage (filter (\<lambda>e. Error e \<noteq> None) es))"
proof (induction es rule: rev_induct)
  case Nil
  then show ?case by simp
next
  case (snoc x xs)
  let ?M = "L @ map ErrorMessage (filter (\<lambda>e. Error e \<noteq> None) xs)"
  have ih: "ErrorDetails (foldl merge_Batch r xs) = take 10 ?M"
    using snoc by blast
  show ?case
  proof (cases "Error x = None")
    case True
    then show ?thesis using ih by (simp add: merge_Batch_fields)
  next
    case False
    from False obtain m where Some: "Error x = Some m" by auto
    have mf: "L @ map ErrorMessage (filter (\<lambda>e. Error e \<noteq> None) (xs @ [x])) = ?M @ [ErrorMessage x]"
      using Some by simp
    have "ErrorDetails (foldl merge_Batch r (xs @ [x])) =
            (if length (take 10 ?M) < 10 then take 10 ?M @ [ErrorMessage x] else take 10 ?M)"
      using Some by (simp add: merge_Batch_fields ih del: take_append length_take)
    then show ?thesis unfolding mf take_10_step .
  qed
qed

lemma finalize_Run_fields:
  "Errors (finalize_Run st) = Errors (fst st)"
  "SuccessfulExecutions (finalize_Run st) = SuccessfulExecutions (fst st)"
  "Executions (finalize_Run st) = Executions (fst st)"
  "ErrorDetails (finalize_Run st) = ErrorDetails (fst st)"
  "MinDuration (finalize_Run st) = MinDuration (fst st)"
  "TotalDuration (finalize_Run st) = TotalDuration (fst st)"
  by (simp_all add: finalize_Run_def Let_def)

lemma finalize_Batch_fields:
  "Errors (finalize_Batch r) = Errors r"
  "SuccessfulExecutions (finalize_Batch r) = SuccessfulExecutions r"
  "Executions (finalize_Batch r) = Executions r"
  "ErrorDetails (finalize_Batch r) = ErrorDetails r"
  "MinDuration (finalize_Batch r) = MinDuration r"
  "TotalDuration (finalize_Batch r) = TotalDuration r"
  by (simp_all add: finalize_Batch_def Let_def)

lemma new_result_fields:
  "Errors (new_result cx q) = 0"
  "SuccessfulExecutions (new_result cx q) = 0"
  "Executions (new_result cx q) = []"
  "ErrorDetails (new_result cx q) = []"
  "MinDuration (new_result cx q) = Hour"
  "TotalDuration (new_result cx q) = 0"
  "AvgDuration (new_result cx q) = 0"
  "MedianDuration (new_result cx q) = 0"
  "StdDevDuration (new_result cx q) = 0"
  "Percentile95 (new_result cx q) = 0"
  "Percentile99 (new_result cx q) = 0"
  by (simp_all add: new_result_def)

lemma length_filter_split:
  "int (length (filter P xs)) + int (length (filter (\<lambda>x. \<not> P x) xs)) = int (length xs)"
  using sum_length_filter_compl [of P xs] by linarith

text \<open>
  Claim C6. For the result of a query in either runner, the successful-execution count
  plus the error count is the length of the execution list; the list has one entry per
  execution, the first counter counts the executions without error and the second those
  with an error.
\<close>

theorem counts_match_executions:
  "SuccessfulExecutions (Run_query cx q calls) + Errors (Run_query cx q calls)
     = int (length (Executions (Run_query cx q calls)))
   \<and> length (Executions (Run_query cx q calls)) = length calls
   \<and> SuccessfulExecutions (Run_query cx q calls)
       = int (length (filter (\<lambda>r. err r = None) (execs_Run q calls)))
   \<and> Errors (Run_query cx q calls)
       = int (length (filter (\<lambda>r. err r \<noteq> None) (execs_Run q calls)))
   \<and> SuccessfulExecutions (ExecuteBatch_query cx q calls) + Errors (ExecuteBatch_query cx q calls)
       = int (length (Executions (ExecuteBatch_query cx q calls)))
   \<and> Executions (ExecuteBatch_query cx q calls) = execs_Batch q calls
   \<and> SuccessfulExecutions (ExecuteBatch_query cx q calls)
       = int (length (filter (\<lambda>e. Error e = None) (execs_Batch q calls)))
   \<and> Errors (ExecuteBatch_query cx q calls)
       = int (length (filter (\<lambda>e. Error e \<noteq> None) (execs_Batch q calls)))"
proof -
  have lr: "length (execs_Run q calls) = length calls" by (simp add: execs_Run_def)
  have r: "SuccessfulExecutions (Run_query cx q calls)
             = int (length (filter (\<lambda>r. err r = None) (execs_Run q calls)))"
          "Errors (Run_query cx q calls)
             = int (length (filter (\<lambda>r. err r \<noteq> None) (execs_Run q calls)))"
          "length (Executions (Run_query cx q calls)) = length calls"
    by (simp_all add: Run_query_def finalize_Run_fields foldl_merge_Run new_result_fields lr)
  have b: "SuccessfulExecutions (ExecuteBatch_query cx q calls)
             = int (length (filter (\<lambda>e. Error e = None) (execs_Batch q calls)))"
          "Errors (ExecuteBatch_query cx q calls)
             = int (length (filter (\<lambda>e. Error e \<noteq> None) (execs_Batch q calls)))"
          "Executions (ExecuteBatch_query cx q calls) = execs_Batch q calls"
    by (simp_all add: ExecuteBatch_query_def finalize_Batch_fields foldl_merge_Batch new_result_fields)
  have sr: "SuccessfulExecutions (Run_query cx q calls) + Errors (Run_query cx q calls)
              = int (length (Executions (Run_query cx q calls)))"
    unfolding r using length_filter_split [of "\<lambda>r. err r = None" "execs_Run q calls"] lr by simp
  have sb: "SuccessfulExecutions (ExecuteBatch_query cx q calls) + Errors (ExecuteBatch_query cx q calls)
              = int (length (Executions (ExecuteBatch_query cx q calls)))"
    unfolding b using length_filter_split [of "\<lambda>e. Error e = None" "execs_Batch q calls"] by simp
  show ?thesis using r b sr sb by simp
qed

lemma ExecuteQuery_message:
  "Error (fst (ExecuteQuery t s c)) = Some m \<Longrightarrow> ErrorMessage (fst (ExecuteQuery t s c)) = m"
  by (auto simp: ExecuteQuery_def Let_def split: option.splits prod.splits)

lemma execs_Batch_messages:
  "map ErrorMessage (filter (\<lambda>e. Error e \<noteq> None) (execs_Batch q calls))
     = List.map_filter Error (execs_Batch q calls)"
  unfolding execs_Batch_def List.map_filter_def
  by (induction calls) (auto simp: ExecuteQuery_message)

text \<open>
  Claim C7, amended. The error-detail list is the list of the messages of the first 10
  failing executions in completion order (a message that occurs again is listed again),
  so it has \<open>min 10 errors\<close> entries; the error counter is the number of failing
  executions.
\<close>

theorem error_details_first_ten:
  "ErrorDetails (Run_query cx q calls) = take 10 (List.map_filter err (execs_Run q calls))
   \<and> Errors (Run_query cx q calls) = int (length (List.map_filter err (execs_Run q calls)))
   \<and> length (ErrorDetails (Run_query cx q calls)) = min 10 (nat (Errors (Run_query cx q calls)))
   \<and> ErrorDetails (ExecuteBatch_query cx q calls)
       = take 10 (List.map_filter Error (execs_Batch q calls))
   \<and> Errors (ExecuteBatch_query cx q calls)
       = int (length (List.map_filter Error (execs_Batch q calls)))
   \<and> length (ErrorDetails (ExecuteBatch_query cx q calls))
       = min 10 (nat (Errors (ExecuteBatch_query cx q calls)))"
proof -
  have d: "ErrorDetails (Run_query cx q calls) = take 10 (List.map_filter err (execs_Run q calls))"
    using foldl_merge_Run_details [of "(new_result cx q, [])" "[]" q "execs_Run q calls"]
    by (simp add: Run_query_def finalize_Run_fields new_result_fields)
  have e: "Errors (Run_query cx q calls) = int (length (List.map_filter err (execs_Run q calls)))"
    by (simp add: Run_query_def finalize_Run_fields foldl_merge_Run new_result_fields
        List.map_filter_def)
  have d': "ErrorDetails (ExecuteBatch_query cx q calls)
              = take 10 (List.map_filter Error (execs_Batch q calls))"
    using foldl_merge_Batch_details [of "new_result cx q" "[]" "execs_Batch q calls"]
      execs_Batch_messages [of q calls]
    by (simp add: ExecuteBatch_query_def finalize_Batch_fields new_result_fields)
  have e': "Errors (ExecuteBatch_query cx q calls)
              = int (length (List.map_filter Error (execs_Batch q calls)))"
    by (simp add: ExecuteBatch_query_def finalize_Batch_fields foldl_merge_Batch new_result_fields
        List.map_filter_def)
  have l: "length (ErrorDetails (Run_query cx q calls)) = min 10 (nat (Errors (Run_query cx q calls)))"
    unfolding d e by (simp add: min.commute)
  have l': "length (ErrorDetails (ExecuteBatch_query cx q calls))
              = min 10 (nat (Errors (ExecuteBatch_query cx q calls)))"
    unfolding d' e' by (simp add: min.commute)
  show ?thesis using d e l d' e' l' by simp
qed

text \<open>
  Claim C7 as stated fails: two executions that fail with the same message leave that
  message twice in the error-detail list.
\<close>

theorem error_details_repeat:
  "ErrorDetails (Run_query low_tag select1 [(0, failed_call ''Deadlock found''), (1, failed_call ''Deadlock found'')])
     = [''Deadlock found'', ''Deadlock found'']
   \<and> \<not> distinct (ErrorDetails (ExecuteBatch_query low_tag select1
          [(0, failed_call ''Deadlock found''), (1, failed_call ''Deadlock found'')]))"
  by (simp add: Run_query_def ExecuteBatch_query_def execs_Run_def execs_Batch_def
      executeQuery_def ExecuteQuery_def merge_Run_def merge_Batch_def finalize_Run_def
      finalize_Batch_def new_result_def failed_call_def select1_def Let_def)

section \<open>Minimum duration and finalized statistics\<close>

lemma Min_insert_above:
  "finite S \<Longrightarrow> S \<noteq> {} \<Longrightarrow> Min S \<le> h \<Longrightarrow> Min (insert h S) = Min S"
  using Min_insert [of S h] by (simp only: min_def) simp

text \<open>
  Claim C9, amended. \<^verbatim>\<open>MinDuration\<close> starts at one hour, not at infinity: for the
  result of a query in either runner it is the minimum of one hour and the durations of
  the successful executions. Failed executions do not contribute. With no successful
  execution it stays at one hour, which is not 0; when a successful execution took at
  most one hour it is the minimum duration of the successful executions.
\<close>

theorem min_duration_sentinel:
  "MinDuration (Run_query cx q calls)
     = Min (insert Hour (set (map duration (filter (\<lambda>r. err r = None) (execs_Run q calls)))))
   \<and> MinDuration (ExecuteBatch_query cx q calls)
     = Min (insert Hour (set (map Duration (filter (\<lambda>e. Error e = None) (execs_Batch q calls)))))
   \<and> (SuccessfulExecutions (Run_query cx q calls) = 0 \<longrightarrow>
        MinDuration (Run_query cx q calls) = Hour)
   \<and> (SuccessfulExecutions (ExecuteBatch_query cx q calls) = 0 \<longrightarrow>
        MinDuration (ExecuteBatch_query cx q calls) = Hour)
   \<and> (filter (\<lambda>r. err r = None) (execs_Run q calls) \<noteq> []
        \<and> Min (set (map duration (filter (\<lambda>r. err r = None) (execs_Run q calls)))) \<le> Hour \<longrightarrow>
        MinDuration (Run_query cx q calls)
          = Min (set (map duration (filter (\<lambda>r. err r = None) (execs_Run q calls)))))
   \<and> (filter (\<lambda>e. Error e = None) (execs_Batch q calls) \<noteq> []
        \<and> Min (set (map Duration (filter (\<lambda>e. Error e = None) (execs_Batch q calls)))) \<le> Hour \<longrightarrow>
        MinDuration (ExecuteBatch_query cx q calls)
          = Min (set (map Duration (filter (\<lambda>e. Error e = None) (execs_Batch q calls)))))
   \<and> Hour \<noteq> 0"
proof -
  let ?ds = "map duration (filter (\<lambda>r. err r = None) (execs_Run q calls))"
  let ?es = "map Duration (filter (\<lambda>e. Error e = None) (execs_Batch q calls))"
  have a: "MinDuration (Run_query cx q calls) = Min (insert Hour (set ?ds))"
    by (simp only: Run_query_def finalize_Run_fields foldl_merge_Run_min fst_conv new_result_fields)
  have b: "MinDuration (ExecuteBatch_query cx q calls) = Min (insert Hour (set ?es))"
    by (simp only: ExecuteBatch_query_def finalize_Batch_fields foldl_merge_Batch_min
        new_result_fields)
  have c: "SuccessfulExecutions (Run_query cx q calls) = 0 \<longrightarrow>
           MinDuration (Run_query cx q calls) = Hour"
  proof
    assume "SuccessfulExecutions (Run_query cx q calls) = 0"
    then have "filter (\<lambda>r. err r = None) (execs_Run q calls) = []"
      by (simp add: Run_query_def finalize_Run_fields foldl_merge_Run new_result_fields)
    then show "MinDuration (Run_query cx q calls) = Hour" unfolding a by simp
  qed
  have d: "SuccessfulExecutions (ExecuteBatch_query cx q calls) = 0 \<longrightarrow>
           MinDuration (ExecuteBatch_query cx q calls) = Hour"
  proof
    assume "SuccessfulExecutions (ExecuteBatch_query cx q calls) = 0"
    then have "filter (\<lambda>e. Error e = None) (execs_Batch q calls) = []"
      by (simp add: ExecuteBatch_query_def finalize_Batch_fields foldl_merge_Batch new_result_fields)
    then show "MinDuration (ExecuteBatch_query cx q calls) = Hour" unfolding b by simp
  qed
  have e: "Hour \<noteq> 0" by (simp add: Hour_def)
  have f: "filter (\<lambda>r. err r = None) (execs_Run q calls) \<noteq> [] \<and> Min (set ?ds) \<le> Hour \<longrightarrow>
           MinDuration (Run_query cx q calls) = Min (set ?ds)"
  proof
    assume h: "filter (\<lambda>r. err r = None) (execs_Run q calls) \<noteq> [] \<and> Min (set ?ds) \<le> Hour"
    then have "?ds \<noteq> []" by (simp only: map_is_Nil_conv) simp
    then have "set ?ds \<noteq> {}" by (simp only: set_empty) simp
    then show "MinDuration (Run_query cx q calls) = Min (set ?ds)"
      unfolding a using h by (intro Min_insert_above) simp_all
  qed
  have g: "filter (\<lambda>e. Error e = None) (execs_Batch q calls) \<noteq> [] \<and> Min (set ?es) \<le> Hour \<longrightarrow>
           MinDuration (ExecuteBatch_query cx q calls) = Min (set ?es)"
  proof
    assume h: "filter (\<lambda>e. Error e = None) (execs_Batch q calls) \<noteq> [] \<and> Min (set ?es) \<le> Hour"
    then have "?es \<noteq> []" by (simp only: map_is_Nil_conv) simp
    then have "set ?es \<noteq> {}" by (simp only: set_empty) simp
    then show "MinDuration (ExecuteBatch_query cx q calls) = Min (set ?es)"
      unfolding b using h by (intro Min_insert_above) simp_all
  qed
  show ?thesis using a b c d e f g by blast
qed

theorem min_duration_sentinel_witness:
  "SuccessfulExecutions (Run_query low_tag select1 [(0, failed_call ''Deadlock found'')]) = 0
   \<and> MinDuration (Run_query low_tag select1 [(0, failed_call ''Deadlock found'')]) = 3600000000000
   \<and> SuccessfulExecutions (ExecuteBatch_query low_tag select1 [(0, failed_call ''Deadlock found'')]) = 0
   \<and> MinDuration (ExecuteBatch_query low_tag select1 [(0, failed_call ''Deadlock found'')]) = 3600000000000
   \<and> map duration (filter (\<lambda>r. err r = None)
         (execs_Run select1 [(0, ok_call 900), (1, failed_call ''Deadlock found''), (2, ok_call 700)]))
       = [900, 700]
   \<and> MinDuration (Run_query low_tag select1
         [(0, ok_call 900), (1, failed_call ''Deadlock found''), (2, ok_call 700)]) = 700
   \<and> map Duration (filter (\<lambda>e. Error e = None)
         (execs_Batch select1 [(0, ok_call 900), (1, failed_call ''Deadlock found''), (2, ok_call 700)]))
       = [900, 700]
   \<and> MinDuration (ExecuteBatch_query low_tag select1
         [(0, ok_call 900), (1, failed_call ''Deadlock found''), (2, ok_call 700)]) = 700"
proof -
  have s: "SuccessfulExecutions (Run_query low_tag select1 [(0, failed_call ''Deadlock found'')]) = 0"
    by (simp add: Run_query_def execs_Run_def executeQuery_def merge_Run_def finalize_Run_def
        new_result_def failed_call_def Let_def)
  have t: "SuccessfulExecutions (ExecuteBatch_query low_tag select1 [(0, failed_call ''Deadlock found'')]) = 0"
    by (simp add: ExecuteBatch_query_def execs_Batch_def ExecuteQuery_def merge_Batch_def
        finalize_Batch_def new_result_def failed_call_def Let_def)
  have u: "map duration (filter (\<lambda>r. err r = None)
         (execs_Run select1 [(0, ok_call 900), (1, failed_call ''Deadlock found''), (2, ok_call 700)]))
       = [900, 700]"
    by (simp add: execs_Run_def executeQuery_def failed_call_def ok_call_def Let_def)
  have v: "map Duration (filter (\<lambda>e. Error e = None)
         (execs_Batch select1 [(0, ok_call 900), (1, failed_call ''Deadlock found''), (2, ok_call 700)]))
       = [900, 700]"
    by (simp add: execs_Batch_def ExecuteQuery_def failed_call_def ok_call_def Let_def)
  have first: "MinDuration (Run_query low_tag select1 [(0, failed_call ''Deadlock found'')]) = 3600000000000
     \<and> MinDuration (ExecuteBatch_query low_tag select1 [(0, failed_call ''Deadlock found'')]) = 3600000000000"
    using s t min_duration_sentinel [of low_tag select1 "[(0, failed_call ''Deadlock found'')]"]
    by (simp add: Hour_def)
  have second: "MinDuration (Run_query low_tag select1
         [(0, ok_call 900), (1, failed_call ''Deadlock found''), (2, ok_call 700)]) = 700
     \<and> MinDuration (ExecuteBatch_query low_tag select1
         [(0, ok_call 900), (1, failed_call ''Deadlock found''), (2, ok_call 700)]) = 700"
    using min_duration_sentinel [of low_tag select1
        "[(0, ok_call 900), (1, failed_call ''Deadlock found''), (2, ok_call 700)]"]
    unfolding u v by (simp add: Hour_def)
  show ?thesis using s t u v first second by simp
qed

text \<open>
  Claim C9 as stated fails: after one successful execution of two hours
  \<^verbatim>\<open>MinDuration\<close> is one hour, not the duration of that execution.
\<close>

theorem min_duration_over_one_hour:
  "SuccessfulExecutions (Run_query low_tag select1 [(0, ok_call 7200000000000)]) = 1
   \<and> map duration (filter (\<lambda>r. err r = None) (execs_Run select1 [(0, ok_call 7200000000000)]))
       = [7200000000000]
   \<and> MinDuration (Run_query low_tag select1 [(0, ok_call 7200000000000)]) = 3600000000000
   \<and> MinDuration (ExecuteBatch_query low_tag select1 [(0, ok_call 7200000000000)]) = 3600000000000"
  by (simp add: Run_query_def ExecuteBatch_query_def execs_Run_def execs_Batch_def
      executeQuery_def ExecuteQuery_def merge_Run_def merge_Batch_def finalize_Run_def
      finalize_Batch_def new_result_def ok_call_def select1_def Let_def Hour_def wrap64_def
      tdiv_def CalculateStats_def clamp_idx_def float_int_def sqrt_ns_def)

lemma merge_Run_keeps:
  "MedianDuration (fst (merge_Run q st qr)) = MedianDuration (fst st)"
  "Percentile99 (fst (merge_Run q st qr)) = Percentile99 (fst st)"
  "StdDevDuration (fst (merge_Run q st qr)) = StdDevDuration (fst st)"
  by (simp_all add: merge_Run_def Let_def split: option.splits)

lemma foldl_merge_Run_keeps:
  "MedianDuration (fst (foldl (merge_Run q) st qrs)) = MedianDuration (fst st)"
  "Percentile99 (fst (foldl (merge_Run q) st qrs)) = Percentile99 (fst st)"
  "StdDevDuration (fst (foldl (merge_Run q) st qrs)) = StdDevDuration (fst st)"
  by (induction qrs rule: rev_induct) (simp_all add: merge_Run_keeps)

lemma finalize_Run_keeps:
  "MedianDuration (finalize_Run st) = MedianDuration (fst st)"
  "Percentile99 (finalize_Run st) = Percentile99 (fst st)"
  "StdDevDuration (finalize_Run st) = StdDevDuration (fst st)"
  by (simp_all add: finalize_Run_def Let_def)

lemma finalize_Batch_stats:
  assumes "SuccessfulExecutions r = int (length (filter (\<lambda>e. Error e = None) (Executions r)))"
    and "filter (\<lambda>e. Error e = None) (Executions r) \<noteq> []"
  shows "MedianDuration (finalize_Batch r) =
           Median (CalculateStats (map Duration (filter (\<lambda>e. Error e = None) (Executions r))))"
    and "Percentile99 (finalize_Batch r) =
           P99 (CalculateStats (map Duration (filter (\<lambda>e. Error e = None) (Executions r))))"
    and "StdDevDuration (finalize_Batch r) =
           StdDev (CalculateStats (map Duration (filter (\<lambda>e. Error e = None) (Executions r))))"
  using assms by (simp_all add: finalize_Batch_def Let_def)

lemma stats_of_four:
  "Median (CalculateStats [100, 200, 300, 400]) = 300"
  "P99 (CalculateStats [100, 200, 300, 400]) = 400"
  "StdDev (CalculateStats [100, 200, 300, 400]) = 111"
proof -
  have r: "round64 50000 = 50000" "round64 4 = 4" "round64 12500 = 12500"
    using round64_of_nat [of 50000] round64_of_nat [of 4] round64_of_nat [of 12500] by simp_all
  have q: "sqrt_ns 12500 = 111" by (rule sqrt_ns_between) simp_all
  have c: "clamp_idx 4 0.5 = 2" "clamp_idx 4 0.99 = 3"
    by (simp_all add: clamp_idx_def float_int_def)
  have n: "Suc (Suc (Suc (Suc 0))) = 4" by simp
  show "Median (CalculateStats [100, 200, 300, 400]) = 300"
    using c by (simp add: CalculateStats_def Let_def n)
  show "P99 (CalculateStats [100, 200, 300, 400]) = 400"
    using c by (simp add: CalculateStats_def Let_def n)
  show "StdDev (CalculateStats [100, 200, 300, 400]) = 111"
    using r q by (simp add: CalculateStats_def Let_def tdiv_def wrap64_def)
qed

text \<open>
  Claim C3. \<^verbatim>\<open>Analyzer.Run\<close> never assigns the median, the 99th percentile and the
  standard deviation: for every query and all executions they keep their zero value. On
  four successful executions of 100, 200, 300 and 400 ns \<^verbatim>\<open>ExecuteBatch\<close> computes
  300 ns, 400 ns and 111 ns for them.
\<close>

theorem run_leaves_statistics_unset:
  "MedianDuration (Run_query cx q calls) = 0
   \<and> Percentile99 (Run_query cx q calls) = 0
   \<and> StdDevDuration (Run_query cx q calls) = 0
   \<and> SuccessfulExecutions (Run_query low_tag select1 four_calls) = 4
   \<and> MedianDuration (ExecuteBatch_query low_tag select1 four_calls) = 300
   \<and> Percentile99 (ExecuteBatch_query low_tag select1 four_calls) = 400
   \<and> StdDevDuration (ExecuteBatch_query low_tag select1 four_calls) = 111"
proof -
  have a: "MedianDuration (Run_query cx q calls) = 0" "Percentile99 (Run_query cx q calls) = 0"
    "StdDevDuration (Run_query cx q calls) = 0"
    by (simp_all add: Run_query_def finalize_Run_keeps foldl_merge_Run_keeps new_result_fields)
  have er: "filter (\<lambda>r. err r = None) (execs_Run select1 four_calls) = execs_Run select1 four_calls"
    by (simp add: execs_Run_def four_calls_def executeQuery_def ok_call_def Let_def)
  have b: "SuccessfulExecutions (Run_query low_tag select1 four_calls) = 4"
    unfolding Run_query_def finalize_Run_fields foldl_merge_Run er
    by (simp add: new_result_fields execs_Run_def four_calls_def)
  let ?r = "foldl merge_Batch (new_result low_tag select1) (execs_Batch select1 four_calls)"
  have ex: "Executions ?r = execs_Batch select1 four_calls"
    by (simp add: foldl_merge_Batch new_result_fields)
  have inv: "SuccessfulExecutions ?r = int (length (filter (\<lambda>e. Error e = None) (Executions ?r)))"
    by (simp add: foldl_merge_Batch new_result_fields)
  have ds: "map Duration (filter (\<lambda>e. Error e = None) (Executions ?r)) = [100, 200, 300, 400]"
    unfolding ex by (simp add: execs_Batch_def four_calls_def ExecuteQuery_def ok_call_def Let_def)
  then have ne: "filter (\<lambda>e. Error e = None) (Executions ?r) \<noteq> []" by auto
  have c: "MedianDuration (ExecuteBatch_query low_tag select1 four_calls) = 300"
    "Percentile99 (ExecuteBatch_query low_tag select1 four_calls) = 400"
    "StdDevDuration (ExecuteBatch_query low_tag select1 four_calls) = 111"
    unfolding ExecuteBatch_query_def finalize_Batch_stats [OF inv ne] ds
    by (rule stats_of_four)+
  show ?thesis using a b c by simp
qed

section \<open>The example runs\<close>


lemma after_run_fields:
  "map Name after_run = [''q1'', ''q2'']"
  "map SuccessfulExecutions after_run = [1, 0]"
  "map Errors after_run = [0, 1]"
  "map AvgDuration after_run = [80000000, 0]"
  "map MaxDuration after_run = [80000000, 0]"
  by (simp_all add: after_run_def Run_def Run_query_def execs_Run_def executeQuery_def
      merge_Run_def finalize_Run_def new_result_def ok_call_def failed_call_def select1_def
      select2_def Let_def wrap64_def tdiv_def Hour_def)

lemma length_runs: "length before_run = 2" "length after_run = 2"
  by (simp_all add: before_run_def after_run_def Run_def)

section \<open>Properties of the Run Summarizer\<close>

lemma summary_step_fields:
  "fst (snd (summary_step st r)) = wrap64 (fst (snd st) + AvgDuration r)"
  "TotalQueries (fst (summary_step st r)) = TotalQueries (fst st)"
  by (simp_all add: summary_step_def Let_def)

lemma foldl_summary_step:
  "fst (snd (foldl summary_step st rs)) = sum_durations (fst (snd st)) (map AvgDuration rs)"
  "TotalQueries (fst (foldl summary_step st rs)) = TotalQueries (fst st)"
  by (induction rs rule: rev_induct) (simp_all add: summary_step_fields sum_durations_snoc)

lemma calculateSummary_avg:
  "AvgDurationMs (calculateSummary rs) =
     (if rs = [] then 0
      else real_of_int (Microseconds (tdiv (sum_durations 0 (map AvgDuration rs)) (int (length rs))))
           / 1000)"
  by (simp add: calculateSummary_def Let_def foldl_summary_step)

text \<open>
  Claim C1. In the run \<open>after_run\<close> query \<open>q1\<close> has one successful execution with an
  average of 80 ms and query \<open>q2\<close> has none. \<^verbatim>\<open>calculateSummary\<close> adds the zero average
  of \<open>q2\<close> and divides by both queries: the overall average is 40 ms, not the 80 ms of the
  only query with a defined average.
\<close>

theorem summary_counts_failed_query_as_zero:
  "map SuccessfulExecutions after_run = [1, 0]
   \<and> map AvgDuration after_run = [80000000, 0]
   \<and> AvgDurationMs (calculateSummary after_run) = 40"
proof -
  have l: "after_run \<noteq> []" "int (length after_run) = 2"
    using length_runs by auto
  have "sum_durations 0 (map AvgDuration after_run) = 80000000"
    unfolding after_run_fields by (simp add: wrap64_def)
  then have "AvgDurationMs (calculateSummary after_run) = 40"
    unfolding calculateSummary_avg using l by (simp add: tdiv_def Microseconds_def)
  then show ?thesis using after_run_fields by simp
qed

section \<open>Properties of the Comparator\<close>




section \<open>Properties of the Execution Unit\<close>

lemma executeQuery_duration:
  "duration (fst (executeQuery now sql c)) = ctx_ns c + issue_ns c"
  by (simp add: executeQuery_def Let_def split: option.splits prod.splits)

lemma ExecuteQuery_duration:
  "Duration (fst (ExecuteQuery now sql c)) = issue_ns c"
  by (simp add: ExecuteQuery_def Let_def split: option.splits prod.splits)

lemma executeQuery_issue_error:
  "issue_err c = Some m \<Longrightarrow> snd (executeQuery now sql c) = now + ctx_ns c + issue_ns c"
  by (simp add: executeQuery_def Let_def)

lemma ExecuteQuery_issue_error:
  "issue_err c = Some m \<Longrightarrow> snd (ExecuteQuery now sql c) = now + ctx_ns c + issue_ns c"
  by (simp add: ExecuteQuery_def Let_def)

text \<open>
  Claim C2, amended. The recorded duration is the time from the reading of the start
  clock until \<^verbatim>\<open>QueryContext\<close> returns: in \<^verbatim>\<open>executeQuery\<close> the time to build the context
  plus the time of the call, in \<^verbatim>\<open>ExecuteQuery\<close> the time of the call. It does not depend
  on the time the rows take. When the call returns an error the function returns at that
  instant, so the duration is the time elapsed up to the failure.
\<close>

theorem duration_until_query_returns:
  "duration (fst (executeQuery now sql c)) = ctx_ns c + issue_ns c
   \<and> Duration (fst (ExecuteQuery now sql c)) = issue_ns c
   \<and> duration (fst (executeQuery now sql (c\<lparr>next_ns := ns, end_ns := e\<rparr>)))
       = duration (fst (executeQuery now sql c))
   \<and> Duration (fst (ExecuteQuery now sql (c\<lparr>next_ns := ns, end_ns := e\<rparr>)))
       = Duration (fst (ExecuteQuery now sql c))
   \<and> (issue_err c \<noteq> None \<longrightarrow>
        snd (executeQuery now sql c) - now = duration (fst (executeQuery now sql c)))
   \<and> (issue_err c \<noteq> None \<longrightarrow>
        snd (ExecuteQuery now sql c) - (now + ctx_ns c) = Duration (fst (ExecuteQuery now sql c)))"
proof -
  have a: "duration (fst (executeQuery now sql (c\<lparr>next_ns := ns, end_ns := e\<rparr>)))
             = duration (fst (executeQuery now sql c))"
    unfolding executeQuery_duration by simp
  have b: "Duration (fst (ExecuteQuery now sql (c\<lparr>next_ns := ns, end_ns := e\<rparr>)))
             = Duration (fst (ExecuteQuery now sql c))"
    unfolding ExecuteQuery_duration by simp
  have c: "issue_err c \<noteq> None \<longrightarrow>
        snd (executeQuery now sql c) - now = duration (fst (executeQuery now sql c))"
    unfolding executeQuery_duration using executeQuery_issue_error [of c _ now sql] by auto
  have d: "issue_err c \<noteq> None \<longrightarrow>
        snd (ExecuteQuery now sql c) - (now + ctx_ns c) = Duration (fst (ExecuteQuery now sql c))"
    unfolding ExecuteQuery_duration using ExecuteQuery_issue_error [of c _ now sql] by auto
  show ?thesis using executeQuery_duration ExecuteQuery_duration a b c d by blast
qed

theorem duration_until_query_returns_witness:
  "issue_err (failed_call ''Deadlock found'') \<noteq> None
   \<and> snd (executeQuery 50 ''SELECT 1'' (failed_call ''Deadlock found'')) - 50 = 1000
   \<and> duration (fst (executeQuery 50 ''SELECT 1'' (failed_call ''Deadlock found''))) = 1000
   \<and> Duration (fst (ExecuteQuery 50 ''SELECT 1'' (failed_call ''Deadlock found''))) = 1000"
  using duration_until_query_returns [of 50 "''SELECT 1''" "failed_call ''Deadlock found''"]
  by (simp add: failed_call_def)

text \<open>
  Claim C2 as stated fails: for a call answered after 5 ns whose three rows take 2 ns
  each, the function returns at 13 ns with all rows counted, and the recorded duration is
  6 ns in \<^verbatim>\<open>executeQuery\<close> and 5 ns in \<^verbatim>\<open>ExecuteQuery\<close>.
\<close>

theorem duration_excludes_row_drain:
  "startTime (fst (executeQuery 0 ''SELECT 1'' three_rows_call)) = 0
   \<and> rowCount (fst (executeQuery 0 ''SELECT 1'' three_rows_call)) = 3
   \<and> snd (executeQuery 0 ''SELECT 1'' three_rows_call) = 13
   \<and> duration (fst (executeQuery 0 ''SELECT 1'' three_rows_call)) = 6
   \<and> StartTime (fst (ExecuteQuery 0 ''SELECT 1'' three_rows_call)) = 0
   \<and> RowCount (fst (ExecuteQuery 0 ''SELECT 1'' three_rows_call)) = 3
   \<and> snd (ExecuteQuery 0 ''SELECT 1'' three_rows_call) = 13
   \<and> Duration (fst (ExecuteQuery 0 ''SELECT 1'' three_rows_call)) = 5
   \<and> duration (fst (executeQuery 0 ''SELECT 1'' three_rows_call))
       \<noteq> snd (executeQuery 0 ''SELECT 1'' three_rows_call)
           - startTime (fst (executeQuery 0 ''SELECT 1'' three_rows_call))
   \<and> Duration (fst (ExecuteQuery 0 ''SELECT 1'' three_rows_call))
       \<noteq> snd (ExecuteQuery 0 ''SELECT 1'' three_rows_call)
           - StartTime (fst (ExecuteQuery 0 ''SELECT 1'' three_rows_call))"
proof -
  have x: "executeQuery 0 ''SELECT 1'' three_rows_call
             = (\<lparr>duration = 6, rowCount = 3, err = None, startTime = 0\<rparr>, 13)"
    by (simp add: executeQuery_def three_rows_call_def Let_def wrap64_def)
  have y: "ExecuteQuery 0 ''SELECT 1'' three_rows_call
             = (\<lparr>SQL_e = ''SELECT 1'', StartTime = 0, Duration = 5, RowCount = 3, Error = None,
                 ErrorMessage = []\<rparr>, 13)"
    by (simp add: ExecuteQuery_def three_rows_call_def Let_def wrap64_def)
  show ?thesis unfolding x y by simp
qed

section \<open>Properties of the admission gate\<close>

text \<open>The number of buffered tokens is the number of goroutines that hold a slot.\<close>

lemma length_filter_update:
  "k < length xs \<Longrightarrow>
   length (filter P (xs[k := y])) + (if P (xs ! k) then 1 else 0)
     = length (filter P xs) + (if P y then 1 else 0)"
proof (induction xs arbitrary: k)
  case Nil
  then show ?case by simp
next
  case (Cons x xs)
  show ?case
  proof (cases k)
    case 0
    then show ?thesis by simp
  next
    case (Suc j)
    then have "j < length xs" using Cons.prems by simp
    from Cons.IH [OF this] show ?thesis using Suc by simp
  qed
qed

lemma length_filter_mono:
  "(\<And>x. P x \<Longrightarrow> R x) \<Longrightarrow> length (filter P xs) \<le> length (filter R xs)"
  by (induction xs) auto

lemma Run_step_held:
  assumes "Run_step C I s s'" and "sem s = held s" and "sem s \<le> C"
  shows "sem s' = held s' \<and> sem s' \<le> C"
  using assms
proof (cases rule: Run_step.cases)
  case next_query
  then have "filter (\<lambda>w. w \<noteq> Exited) (workers s) = []"
    by (simp add: filter_empty_conv)
  then show ?thesis using next_query assms(2,3) by (simp add: held_def)
next
  case dispatch
  then show ?thesis using assms(2,3) by (simp add: held_def)
next
  case (begin_exec k)
  then show ?thesis
    using assms(2,3) length_filter_update [of k "workers s" "\<lambda>w. w \<noteq> Exited" Executing]
    by (simp add: held_def)
next
  case (end_exec k ok)
  then show ?thesis
    using assms(2,3) length_filter_update [of k "workers s" "\<lambda>w. w \<noteq> Exited" "Merging ok"]
    by (simp add: held_def)
next
  case (release k ok)
  then show ?thesis
    using assms(2,3) length_filter_update [of k "workers s" "\<lambda>w. w \<noteq> Exited" Exited]
    by (simp add: held_def) arith
qed

lemma Run_reachable_held:
  "Run_reachable C I Q s \<Longrightarrow> sem s = held s \<and> sem s \<le> C"
proof (induction rule: Run_reachable.induct)
  case run_start
  then show ?case by (simp add: run_init_def held_def)
next
  case (run_next s s')
  then show ?case using Run_step_held by blast
qed

lemma in_flight_le_held: "in_flight s \<le> held s"
  unfolding in_flight_def held_def by (rule length_filter_mono) simp

lemma Batch_step_held:
  assumes "Batch_step C I s s'" and "sem_b s = held_b s" and "sem_b s \<le> C"
  shows "sem_b s' = held_b s' \<and> sem_b s' \<le> C"
  using assms
proof (cases rule: Batch_step.cases)
  case (acquire k i)
  then show ?thesis
    using assms(2,3) length_filter_update [of k "workers_b s" "\<lambda>w. fst w \<noteq> Waiting" "(Running, i)"]
    by (simp add: held_b_def)
next
  case (returns k i ok)
  then show ?thesis
    using assms(2,3)
      length_filter_update [of k "workers_b s" "\<lambda>w. fst w \<noteq> Waiting" "(Returned ok, i)"]
    by (simp add: held_b_def)
next
  case (release_b k ok i)
  then show ?thesis
    using assms(2,3)
      length_filter_update [of k "workers_b s" "\<lambda>w. fst w \<noteq> Waiting" "(Waiting, i + 1)"]
    by (simp add: held_b_def) arith
qed

lemma Batch_reachable_held:
  "Batch_reachable C I Q s \<Longrightarrow> sem_b s = held_b s \<and> sem_b s \<le> C"
proof (induction rule: Batch_reachable.induct)
  case batch_start
  then show ?case by (simp add: batch_init_def held_b_def)
next
  case (batch_next s s')
  then show ?case using Batch_step_held by blast
qed

lemma in_flight_b_le_held: "in_flight_b s \<le> held_b s"
  unfolding in_flight_b_def held_b_def by (rule length_filter_mono) simp

lemma held_pos:
  "k < length (workers s) \<Longrightarrow> workers s ! k = Merging ok \<Longrightarrow> 0 < held s"
  unfolding held_def length_greater_0_conv filter_empty_conv
  by (metis goroutine.distinct(11) nth_mem)

lemma held_b_pos:
  "k < length (workers_b s) \<Longrightarrow> workers_b s ! k = (Returned ok, i) \<Longrightarrow> 0 < held_b s"
  unfolding held_b_def length_greater_0_conv filter_empty_conv
  by (metis batch_pc.distinct(3) fst_conv nth_mem)

text \<open>The only step of a goroutine whose execution has returned is the release of its slot.\<close>

lemma Run_step_forced:
  assumes "Run_step C I s s'" and "k < length (workers s)" and "k < length (workers s')"
    and "workers s ! k = Merging ok" and "workers s' ! k \<noteq> Merging ok"
  shows "workers s' ! k = Exited \<and> 0 < sem s \<and> sem s' = sem s - 1"
  using assms(1)
proof (cases rule: Run_step.cases)
  case next_query
  then show ?thesis using assms(3) by simp
next
  case dispatch
  then show ?thesis using assms(2,4,5) by (simp add: nth_append)
next
  case (begin_exec j)
  then show ?thesis using assms(2,4,5) by (cases "j = k") simp_all
next
  case (end_exec j ok')
  then show ?thesis using assms(2,4,5) by (cases "j = k") simp_all
next
  case (release j ok')
  then show ?thesis using assms(2,4,5) by (cases "j = k") simp_all
qed

lemma Batch_step_forced:
  assumes "Batch_step C I b b'" and "k < length (workers_b b)"
    and "workers_b b ! k = (Returned ok, i)" and "workers_b b' ! k \<noteq> (Returned ok, i)"
  shows "workers_b b' ! k = (Waiting, i + 1) \<and> 0 < sem_b b \<and> sem_b b' = sem_b b - 1"
  using assms(1)
proof (cases rule: Batch_step.cases)
  case (acquire j i')
  then show ?thesis using assms(2,3,4) by (cases "j = k") simp_all
next
  case (returns j i' ok')
  then show ?thesis using assms(2,3,4) by (cases "j = k") simp_all
next
  case (release_b j ok' i')
  then show ?thesis using assms(2,3,4) by (cases "j = k") simp_all
qed

text \<open>
  Claim C5. In every reachable state of either runner at most \<open>C\<close> executions are in
  flight, and the tokens in the channel are exactly the goroutines that hold a slot, at
  most \<open>C\<close>. A step that takes a slot (the send on the channel) happens only in a state
  with fewer than \<open>C\<close> executions in flight. A goroutine whose execution has returned, with
  or without error, can always make the step that gives its slot back, and it can make no
  other step: when it moves on, a token has left the channel.
\<close>

theorem in_flight_bounded:
  "(Run_reachable C I Q s \<longrightarrow> in_flight s \<le> C)
   \<and> (Run_reachable C I Q s \<longrightarrow> sem s = held s \<and> held s \<le> C)
   \<and> (Run_reachable C I Q s \<and> Run_step C I s s' \<and> sem s < sem s' \<longrightarrow> in_flight s < C)
   \<and> (Run_reachable C I Q s \<and> k < length (workers s) \<and> workers s ! k = Merging ok \<longrightarrow>
        Run_step C I s (s\<lparr>sem := sem s - 1, workers := (workers s)[k := Exited]\<rparr>))
   \<and> (Run_step C I s s' \<and> k < length (workers s) \<and> k < length (workers s')
        \<and> workers s ! k = Merging ok \<and> workers s' ! k \<noteq> Merging ok \<longrightarrow>
        workers s' ! k = Exited \<and> 0 < sem s \<and> sem s' = sem s - 1)
   \<and> (Batch_reachable C I Q b \<longrightarrow> in_flight_b b \<le> C)
   \<and> (Batch_reachable C I Q b \<longrightarrow> sem_b b = held_b b \<and> held_b b \<le> C)
   \<and> (Batch_reachable C I Q b \<and> Batch_step C I b b' \<and> sem_b b < sem_b b' \<longrightarrow> in_flight_b b < C)
   \<and> (Batch_reachable C I Q b \<and> k < length (workers_b b) \<and> workers_b b ! k = (Returned ok, i) \<longrightarrow>
        Batch_step C I b (b\<lparr>sem_b := sem_b b - 1, workers_b := (workers_b b)[k := (Waiting, i + 1)]\<rparr>))
   \<and> (Batch_step C I b b' \<and> k < length (workers_b b)
        \<and> workers_b b ! k = (Returned ok, i) \<and> workers_b b' ! k \<noteq> (Returned ok, i) \<longrightarrow>
        workers_b b' ! k = (Waiting, i + 1) \<and> 0 < sem_b b \<and> sem_b b' = sem_b b - 1)"
proof -
  have r1: "Run_reachable C I Q s \<longrightarrow> in_flight s \<le> C"
    using Run_reachable_held [of C I Q s] in_flight_le_held [of s] by auto
  have r2: "Run_reachable C I Q s \<and> Run_step C I s s' \<and> sem s < sem s' \<longrightarrow> in_flight s < C"
  proof
    assume h: "Run_reachable C I Q s \<and> Run_step C I s s' \<and> sem s < sem s'"
    then have "Run_reachable C I Q s'" using run_next by blast
    then have "sem s' \<le> C" using Run_reachable_held by blast
    moreover have "in_flight s \<le> sem s"
      using h Run_reachable_held [of C I Q s] in_flight_le_held [of s] by auto
    ultimately show "in_flight s < C" using h by linarith
  qed
  have r3: "Run_reachable C I Q s \<and> k < length (workers s) \<and> workers s ! k = Merging ok \<longrightarrow>
        Run_step C I s (s\<lparr>sem := sem s - 1, workers := (workers s)[k := Exited]\<rparr>)"
  proof
    assume h: "Run_reachable C I Q s \<and> k < length (workers s) \<and> workers s ! k = Merging ok"
    then have "0 < sem s" using Run_reachable_held [of C I Q s] held_pos [of k s ok] by auto
    then show "Run_step C I s (s\<lparr>sem := sem s - 1, workers := (workers s)[k := Exited]\<rparr>)"
      using h by (intro release [of k s ok]) simp_all
  qed
  have b1: "Batch_reachable C I Q b \<longrightarrow> in_flight_b b \<le> C"
    using Batch_reachable_held [of C I Q b] in_flight_b_le_held [of b] by auto
  have b2: "Batch_reachable C I Q b \<and> Batch_step C I b b' \<and> sem_b b < sem_b b' \<longrightarrow> in_flight_b b < C"
  proof
    assume h: "Batch_reachable C I Q b \<and> Batch_step C I b b' \<and> sem_b b < sem_b b'"
    then have "Batch_reachable C I Q b'" using batch_next by blast
    then have "sem_b b' \<le> C" using Batch_reachable_held by blast
    moreover have "in_flight_b b \<le> sem_b b"
      using h Batch_reachable_held [of C I Q b] in_flight_b_le_held [of b] by auto
    ultimately show "in_flight_b b < C" using h by linarith
  qed
  have b3: "Batch_reachable C I Q b \<and> k < length (workers_b b) \<and> workers_b b ! k = (Returned ok, i) \<longrightarrow>
        Batch_step C I b (b\<lparr>sem_b := sem_b b - 1, workers_b := (workers_b b)[k := (Waiting, i + 1)]\<rparr>)"
  proof
    assume h: "Batch_reachable C I Q b \<and> k < length (workers_b b) \<and> workers_b b ! k = (Returned ok, i)"
    then have "0 < sem_b b" using Batch_reachable_held [of C I Q b] held_b_pos [of k b ok i] by auto
    then show "Batch_step C I b (b\<lparr>sem_b := sem_b b - 1, workers_b := (workers_b b)[k := (Waiting, i + 1)]\<rparr>)"
      using h by (intro release_b [of k b ok i]) simp_all
  qed
  have r4: "Run_reachable C I Q s \<longrightarrow> sem s = held s \<and> held s \<le> C"
    using Run_reachable_held [of C I Q s] by auto
  have r5: "Run_step C I s s' \<and> k < length (workers s) \<and> k < length (workers s')
        \<and> workers s ! k = Merging ok \<and> workers s' ! k \<noteq> Merging ok \<longrightarrow>
        workers s' ! k = Exited \<and> 0 < sem s \<and> sem s' = sem s - 1"
    using Run_step_forced [of C I s s' k ok] by blast
  have b4: "Batch_reachable C I Q b \<longrightarrow> sem_b b = held_b b \<and> held_b b \<le> C"
    using Batch_reachable_held [of C I Q b] by auto
  have b5: "Batch_step C I b b' \<and> k < length (workers_b b)
        \<and> workers_b b ! k = (Returned ok, i) \<and> workers_b b' ! k \<noteq> (Returned ok, i) \<longrightarrow>
        workers_b b' ! k = (Waiting, i + 1) \<and> 0 < sem_b b \<and> sem_b b' = sem_b b - 1"
    using Batch_step_forced [of C I b b' k ok i] by blast
  show ?thesis using r1 r2 r3 r4 r5 b1 b2 b3 b4 b5 by blast
qed

theorem in_flight_bounded_witness:
  "Run_reachable 1 1 1 \<lparr>sem = 1, queries_left = 0, iter = 1, workers = [Executing]\<rparr>
   \<and> in_flight \<lparr>sem = 1, queries_left = 0, iter = 1, workers = [Executing]\<rparr> \<le> 1
   \<and> held \<lparr>sem = 1, queries_left = 0, iter = 1, workers = [Executing]\<rparr> = 1
   \<and> Run_reachable 1 1 1 \<lparr>sem = 0, queries_left = 0, iter = 0, workers = []\<rparr>
   \<and> Run_step 1 1 \<lparr>sem = 0, queries_left = 0, iter = 0, workers = []\<rparr>
         \<lparr>sem = 1, queries_left = 0, iter = 1, workers = [Spawned]\<rparr>
   \<and> in_flight \<lparr>sem = 0, queries_left = 0, iter = 0, workers = []\<rparr> < 1
   \<and> Run_reachable 1 1 1 \<lparr>sem = 1, queries_left = 0, iter = 1, workers = [Merging False]\<rparr>
   \<and> Run_step 1 1 \<lparr>sem = 1, queries_left = 0, iter = 1, workers = [Merging False]\<rparr>
         \<lparr>sem = 0, queries_left = 0, iter = 1, workers = [Exited]\<rparr>
   \<and> held \<lparr>sem = 0, queries_left = 0, iter = 1, workers = [Exited]\<rparr> = 0
   \<and> Batch_reachable 1 1 1 \<lparr>sem_b = 1, workers_b = [(Running, 0)]\<rparr>
   \<and> in_flight_b \<lparr>sem_b = 1, workers_b = [(Running, 0)]\<rparr> \<le> 1
   \<and> held_b \<lparr>sem_b = 1, workers_b = [(Running, 0)]\<rparr> = 1
   \<and> Batch_reachable 1 1 1 \<lparr>sem_b = 0, workers_b = [(Waiting, 0)]\<rparr>
   \<and> Batch_step 1 1 \<lparr>sem_b = 0, workers_b = [(Waiting, 0)]\<rparr> \<lparr>sem_b = 1, workers_b = [(Running, 0)]\<rparr>
   \<and> in_flight_b \<lparr>sem_b = 0, workers_b = [(Waiting, 0)]\<rparr> < 1
   \<and> Batch_reachable 1 1 1 \<lparr>sem_b = 1, workers_b = [(Returned False, 0)]\<rparr>
   \<and> Batch_step 1 1 \<lparr>sem_b = 1, workers_b = [(Returned False, 0)]\<rparr>
         \<lparr>sem_b = 0, workers_b = [(Waiting, 1)]\<rparr>
   \<and> held_b \<lparr>sem_b = 0, workers_b = [(Waiting, 1)]\<rparr> = 0"
proof -
  let ?s0 = "\<lparr>sem = 0, queries_left = 1, iter = 1, workers = []\<rparr>"
  let ?s1 = "\<lparr>sem = 0, queries_left = 0, iter = 0, workers = []\<rparr>"
  let ?s2 = "\<lparr>sem = 1, queries_left = 0, iter = 1, workers = [Spawned]\<rparr>"
  let ?s3 = "\<lparr>sem = 1, queries_left = 0, iter = 1, workers = [Executing]\<rparr>"
  let ?s4 = "\<lparr>sem = 1, queries_left = 0, iter = 1, workers = [Merging False]\<rparr>"
  let ?s5 = "\<lparr>sem = 0, queries_left = 0, iter = 1, workers = [Exited]\<rparr>"
  have r0: "Run_reachable 1 1 1 ?s0"
    using run_start [of 1 1 1] by (simp add: run_init_def)
  have t01: "Run_step 1 1 ?s0 ?s1"
    using next_query [where s = ?s0 and I = 1 and C = 1] by simp
  have t12: "Run_step 1 1 ?s1 ?s2"
    using dispatch [where s = ?s1 and I = 1 and C = 1] by simp
  have t23: "Run_step 1 1 ?s2 ?s3"
    using begin_exec [where s = ?s2 and k = 0 and I = 1 and C = 1] by simp
  have t34: "Run_step 1 1 ?s3 ?s4"
    using end_exec [where s = ?s3 and k = 0 and ok = False and I = 1 and C = 1] by simp
  have r1: "Run_reachable 1 1 1 ?s1" using run_next [OF r0 t01] .
  have r2: "Run_reachable 1 1 1 ?s2" using run_next [OF r1 t12] .
  have r3: "Run_reachable 1 1 1 ?s3" using run_next [OF r2 t23] .
  have r4: "Run_reachable 1 1 1 ?s4" using run_next [OF r3 t34] .
  let ?b0 = "\<lparr>sem_b = 0, workers_b = [(Waiting, 0)]\<rparr>"
  let ?b1 = "\<lparr>sem_b = 1, workers_b = [(Running, 0)]\<rparr>"
  let ?b2 = "\<lparr>sem_b = 1, workers_b = [(Returned False, 0)]\<rparr>"
  let ?b3 = "\<lparr>sem_b = 0, workers_b = [(Waiting, 1)]\<rparr>"
  have q0: "Batch_reachable 1 1 1 ?b0"
    using batch_start [of 1 1 1] by (simp add: batch_init_def)
  have u01: "Batch_step 1 1 ?b0 ?b1"
    using acquire [where s = ?b0 and k = 0 and i = 0 and I = 1 and C = 1] by simp
  have u12: "Batch_step 1 1 ?b1 ?b2"
    using returns [where s = ?b1 and k = 0 and i = 0 and ok = False and I = 1 and C = 1] by simp
  have q1: "Batch_reachable 1 1 1 ?b1" using batch_next [OF q0 u01] .
  have q2: "Batch_reachable 1 1 1 ?b2" using batch_next [OF q1 u12] .
  have a: "in_flight ?s3 \<le> 1 \<and> held ?s3 = 1 \<and> in_flight_b ?b1 \<le> 1 \<and> held_b ?b1 = 1"
    using in_flight_bounded [where C = 1 and I = 1 and Q = 1 and s = ?s3 and b = ?b1] r3 q1
    by simp
  have b: "in_flight ?s1 < 1 \<and> in_flight_b ?b0 < 1"
    using in_flight_bounded [where C = 1 and I = 1 and Q = 1 and s = ?s1 and s' = ?s2
        and b = ?b0 and b' = ?b1] r1 t12 q0 u01
    by simp
  have c: "Run_step 1 1 ?s4 ?s5 \<and> Batch_step 1 1 ?b2 ?b3"
    using in_flight_bounded [where C = 1 and I = 1 and Q = 1 and s = ?s4 and k = 0
        and ok = False and b = ?b2 and i = 0] r4 q2
    by simp
  have r5: "Run_reachable 1 1 1 ?s5" using run_next [OF r4] c by blast
  have q3: "Batch_reachable 1 1 1 ?b3" using batch_next [OF q2] c by blast
  have d: "sem ?s5 = sem ?s4 - 1 \<and> sem_b ?b3 = sem_b ?b2 - 1"
    using in_flight_bounded [where C = 1 and I = 1 and Q = 1 and s = ?s4 and s' = ?s5 and k = 0
        and ok = False and b = ?b2 and b' = ?b3 and i = 0] c
    by simp
  have e: "held ?s5 = 0 \<and> held_b ?b3 = 0"
    using in_flight_bounded [where C = 1 and I = 1 and Q = 1 and s = ?s5 and b = ?b3] r5 q3 d
    by simp
  show ?thesis using r3 a r1 t12 b r4 c e q1 q0 u01 q2 by simp
qed

end
